theory Spec2Isabelle
  imports Complex_Main "HOL-Library.Word"
begin

section \<open>Platform values\<close>

text \<open>
  JavaScript strings are modelled as HOL strings: lists of 8-bit characters. This covers
  every ``binary string'' (all code units below 256) that \<^verbatim>\<open>btoa\<close> accepts and
  \<^verbatim>\<open>atob\<close> returns. A \<^verbatim>\<open>Uint8Array\<close> is a list of 8-bit words.
\<close>

type_synonym bytes = "8 word list"

datatype js_exception =
    InvalidCharacterError
  | RangeError
  | NotSupportedError
  | TypeError
  | InvalidStateError

section \<open>The browser's \<^verbatim>\<open>btoa\<close> and \<^verbatim>\<open>atob\<close>\<close>

text \<open>
  Both are built into the browser; the repository only calls them. They are written here
  after the HTML Standard (forgiving-base64 encode and decode, RFC 4648 alphabet).
\<close>

definition b64_alphabet :: string where
  "b64_alphabet = ''ABCDEFGHIJKLMNOPQRSTUVWXYZabcdefghijklmnopqrstuvwxyz0123456789+/''"

definition b64_char :: "nat \<Rightarrow> char" where
  "b64_char n = b64_alphabet ! n"

fun index_of :: "char \<Rightarrow> string \<Rightarrow> nat option" where
  "index_of c [] = None"
| "index_of c (x # xs) = (if c = x then Some 0 else map_option Suc (index_of c xs))"

definition b64_value :: "char \<Rightarrow> nat option" where
  "b64_value c = index_of c b64_alphabet"

text \<open>Three bytes become four sextets; one or two trailing bytes are padded with \<open>=\<close>.\<close>

fun btoa_units :: "nat list \<Rightarrow> string" where
  "btoa_units (a # b # c # rest) =
     b64_char (a div 4) # b64_char ((a mod 4) * 16 + b div 16) #
     b64_char ((b mod 16) * 4 + c div 64) # b64_char (c mod 64) # btoa_units rest"
| "btoa_units [a, b] =
     [b64_char (a div 4), b64_char ((a mod 4) * 16 + b div 16), b64_char ((b mod 16) * 4), CHR ''='']"
| "btoa_units [a] =
     [b64_char (a div 4), b64_char ((a mod 4) * 16), CHR ''='', CHR ''='']"
| "btoa_units [] = []"

definition btoa :: "string \<Rightarrow> string" where
  "btoa s = btoa_units (map of_char s)"

definition ascii_whitespace :: "char \<Rightarrow> bool" where
  "ascii_whitespace c = (c \<in> {CHR 0x09, CHR 0x0A, CHR 0x0C, CHR 0x0D, CHR 0x20})"

text \<open>
  Step 2 of forgiving-base64 decode: when the length is a multiple of four, one or two
  trailing \<open>=\<close> are removed.
\<close>

definition strip_padding :: "string \<Rightarrow> string" where
  "strip_padding d =
     (if length d mod 4 = 0 then
        (if 2 \<le> length d \<and> last d = CHR ''='' \<and> last (butlast d) = CHR ''=''
         then butlast (butlast d)
         else if d \<noteq> [] \<and> last d = CHR ''='' then butlast d
         else d)
      else d)"

text \<open>Four sextets give three bytes; a rest of three gives two bytes, a rest of two gives one.\<close>

fun atob_sextets :: "nat list \<Rightarrow> nat list" where
  "atob_sextets (p # q # r # s # rest) =
     (p * 4 + q div 16) # ((q mod 16) * 16 + r div 4) # ((r mod 4) * 64 + s) # atob_sextets rest"
| "atob_sextets [p, q, r] = [p * 4 + q div 16, (q mod 16) * 16 + r div 4]"
| "atob_sextets [p, q] = [p * 4 + q div 16]"
| "atob_sextets _ = []"

definition atob :: "string \<Rightarrow> js_exception + string" where
  "atob data =
     (let d = strip_padding (filter (\<lambda>c. \<not> ascii_whitespace c) data) in
      if length d mod 4 = 1 then Inl InvalidCharacterError
      else (case those (map b64_value d) of
              None \<Rightarrow> Inl InvalidCharacterError
            | Some vs \<Rightarrow> Inr (map char_of (atob_sextets vs))))"

section \<open>services/geminiService.ts: \<^verbatim>\<open>decodeBase64\<close> and \<^verbatim>\<open>encodeBase64\<close>\<close>

definition fromCharCode :: "8 word \<Rightarrow> char" where
  "fromCharCode b = char_of (unat b)"

definition charCodeAt :: "string \<Rightarrow> nat \<Rightarrow> nat" where
  "charCodeAt s i = of_char (s ! i)"

text \<open>
  \<^verbatim>\<open>for (let i = 0; i < binaryString.length; i++) bytes[i] = binaryString.charCodeAt(i);\<close>
  A store into a \<^verbatim>\<open>Uint8Array\<close> keeps the value modulo 256.
\<close>

function decodeBase64_loop :: "string \<Rightarrow> nat \<Rightarrow> bytes \<Rightarrow> bytes" where
  "decodeBase64_loop binaryString i bytes =
     (if i < length binaryString
      then decodeBase64_loop binaryString (i + 1) (bytes[i := word_of_nat (charCodeAt binaryString i)])
      else bytes)"
  by pat_completeness auto
termination
  by (relation "measure (\<lambda>(binaryString, i, bytes). length binaryString - i)") auto

declare decodeBase64_loop.simps [simp del]

definition decodeBase64 :: "string \<Rightarrow> js_exception + bytes" where
  "decodeBase64 base64 =
     (case atob base64 of
        Inl e \<Rightarrow> Inl e
      | Inr binaryString \<Rightarrow>
          Inr (decodeBase64_loop binaryString 0 (replicate (length binaryString) 0)))"

text \<open>
  \<^verbatim>\<open>for (let i = 0; i < bytes.byteLength; i++) binary += String.fromCharCode(bytes[i]);\<close>
\<close>

function encodeBase64_loop :: "bytes \<Rightarrow> nat \<Rightarrow> string \<Rightarrow> string" where
  "encodeBase64_loop bytes i binary =
     (if i < length bytes
      then encodeBase64_loop bytes (i + 1) (binary @ [fromCharCode (bytes ! i)])
      else binary)"
  by pat_completeness auto
termination
  by (relation "measure (\<lambda>(bytes, i, binary). length bytes - i)") auto

declare encodeBase64_loop.simps [simp del]

definition encodeBase64 :: "bytes \<Rightarrow> string" where
  "encodeBase64 bytes = btoa (encodeBase64_loop bytes 0 [])"


section \<open>services/geminiService.ts: \<^verbatim>\<open>validateApiKey\<close> and \<^verbatim>\<open>callWithRetry\<close>\<close>

text \<open>
  A thrown JavaScript value: \<^verbatim>\<open>undefined\<close>, or an error object with an optional
  \<^verbatim>\<open>message\<close>.
\<close>

datatype thrown = Undefined | JsError "string option"

text \<open>\<^verbatim>\<open>error?.message || ""\<close>\<close>

definition message_of :: "thrown \<Rightarrow> string" where
  "message_of e = (case e of Undefined \<Rightarrow> [] | JsError None \<Rightarrow> [] | JsError (Some m) \<Rightarrow> m)"

text \<open>\<^verbatim>\<open>String.prototype.js_includes\<close>: \<open>sub\<close> occurs in \<open>s\<close> as a contiguous run.\<close>

fun js_includes :: "string \<Rightarrow> string \<Rightarrow> bool" where
  "js_includes [] sub = (sub = [])"
| "js_includes (c # cs) sub = (take (length sub) (c # cs) = sub \<or> js_includes cs sub)"

record key_validation =
  valid :: bool
  reason :: "string option"

definition validateApiKey :: "string option \<Rightarrow> key_validation" where
  "validateApiKey key =
     (case key of
        None \<Rightarrow> \<lparr>valid = False, reason = Some ''No API key found in the system environment.''\<rparr>
      | Some k \<Rightarrow>
          if k = [] then \<lparr>valid = False, reason = Some ''No API key found in the system environment.''\<rparr>
          else if take 3 k = ''sk-'' then
            \<lparr>valid = False,
             reason = Some ''You are using an OpenAI key. This app requires a Google Gemini key from ai.google.dev.''\<rparr>
          else \<lparr>valid = True, reason = None\<rparr>)"

definition isQuota :: "string \<Rightarrow> bool" where
  "isQuota msg = (js_includes msg ''429'' \<or> js_includes msg ''quota'' \<or> js_includes msg ''RESOURCE_EXHAUSTED'')"

definition isAuth :: "string \<Rightarrow> bool" where
  "isAuth msg = (js_includes msg ''403'' \<or> js_includes msg ''API key not valid'' \<or> js_includes msg ''PERMISSION_DENIED'')"

definition isNotFound :: "string \<Rightarrow> bool" where
  "isNotFound msg = (js_includes msg ''404'' \<or> js_includes msg ''model not found'')"

definition api_key_error :: thrown where
  "api_key_error = JsError (Some ''API KEY ERROR: Your key is invalid or unauthorized. Use Google AI Studio.'')"

definition model_error :: thrown where
  "model_error = JsError (Some ''MODEL ERROR: The selected model is not available for your key.'')"

definition quota_exceeded :: thrown where
  "quota_exceeded = JsError (Some ''QUOTA EXCEEDED: You've reached the limit for this model. Try 'Flash' mode.'')"

text \<open>
  \<open>fn\<close> is an effectful thunk: \<open>fn i\<close> is what its \<open>i\<close>-th invocation (counted from 0) does.
  A run records how the wrapper ended, the timeouts it waited for (milliseconds, in
  order) and how many times it invoked \<open>fn\<close>.
\<close>

datatype 'a attempt = Returns 'a | Throws thrown

record 'a retry_run =
  outcome :: "thrown + 'a"
  waits :: "int list"
  attempts :: nat

function callWithRetry_loop ::
  "(nat \<Rightarrow> 'a attempt) \<Rightarrow> int \<Rightarrow> int \<Rightarrow> nat \<Rightarrow> thrown \<Rightarrow> int list \<Rightarrow> 'a retry_run" where
  "callWithRetry_loop fn maxRetries initialDelay i lastError waited =
     (if int i \<le> maxRetries then
        (case fn i of
           Returns v \<Rightarrow> \<lparr>outcome = Inr v, waits = waited, attempts = i + 1\<rparr>
         | Throws error \<Rightarrow>
             if isAuth (message_of error) then
               \<lparr>outcome = Inl api_key_error, waits = waited, attempts = i + 1\<rparr>
             else if isNotFound (message_of error) then
               \<lparr>outcome = Inl model_error, waits = waited, attempts = i + 1\<rparr>
             else if isQuota (message_of error) \<and> int i < maxRetries then
               callWithRetry_loop fn maxRetries initialDelay (i + 1) error
                 (waited @ [initialDelay * 2 ^ i])
             else if isQuota (message_of error) then
               \<lparr>outcome = Inl quota_exceeded, waits = waited, attempts = i + 1\<rparr>
             else \<lparr>outcome = Inl error, waits = waited, attempts = i + 1\<rparr>)
      else \<lparr>outcome = Inl lastError, waits = waited, attempts = i\<rparr>)"
  by pat_completeness auto
termination
  by (relation "measure (\<lambda>(fn, maxRetries, initialDelay, i, lastError, waited). nat (maxRetries + 1 - int i))")
    auto

declare callWithRetry_loop.simps [simp del]

definition callWithRetry :: "string option \<Rightarrow> (nat \<Rightarrow> 'a attempt) \<Rightarrow> int \<Rightarrow> int \<Rightarrow> 'a retry_run" where
  "callWithRetry apiKey fn maxRetries initialDelay =
     (let auth = validateApiKey apiKey in
      if \<not> valid auth then \<lparr>outcome = Inl (JsError (reason auth)), waits = [], attempts = 0\<rparr>
      else callWithRetry_loop fn maxRetries initialDelay 0 Undefined [])"


text \<open>
  The classes of errors the retry policy distinguishes, for stating it: an error is
  \<open>retryable\<close> when its message matches the quota patterns and neither the auth nor the
  not-found patterns (the code tests auth first, then not-found, then quota).
  \<open>retried fn n\<close>: the first \<open>n\<close> invocations of \<open>fn\<close> all threw retryable errors.
  \<open>backoff d n\<close>: the first \<open>n\<close> waits of the exponential schedule \<open>d\<close>, \<open>2d\<close>, \<open>4d\<close>, ...
\<close>

definition retryable :: "thrown \<Rightarrow> bool" where
  "retryable e = (isQuota (message_of e) \<and> \<not> isAuth (message_of e) \<and> \<not> isNotFound (message_of e))"

definition retried :: "(nat \<Rightarrow> 'a attempt) \<Rightarrow> nat \<Rightarrow> bool" where
  "retried fn n = (\<forall>j<n. \<exists>e. fn j = Throws e \<and> retryable e)"

definition backoff :: "int \<Rightarrow> nat \<Rightarrow> int list" where
  "backoff initialDelay n = map (\<lambda>j. initialDelay * 2 ^ j) [0..<n]"

section \<open>services/geminiService.ts: \<^verbatim>\<open>decodeAudioData\<close>\<close>

text \<open>
  An \<^verbatim>\<open>AudioBuffer\<close>: the PCM bytes it was made from, its length in sample frames and
  its sample rate. The samples themselves are floating-point values and are not modelled;
  the duration is \<open>frames / rate\<close> seconds.
\<close>

record audio_buffer =
  pcm :: bytes
  frames :: nat
  rate :: nat

definition duration :: "audio_buffer \<Rightarrow> real" where
  "duration b = real (frames b) / real (rate b)"

text \<open>
  \<^verbatim>\<open>new Int16Array(data.buffer)\<close> throws a \<^verbatim>\<open>RangeError\<close> when the byte length is odd;
  \<^verbatim>\<open>ctx.createBuffer\<close> throws a \<^verbatim>\<open>NotSupportedError\<close> for a length of zero frames.
  The only call site passes \<open>numChannels = 1\<close>, where the division is exact.
\<close>

definition decodeAudioData :: "bytes \<Rightarrow> nat \<Rightarrow> nat \<Rightarrow> js_exception + audio_buffer" where
  "decodeAudioData data sampleRate numChannels =
     (if odd (length data) then Inl RangeError
      else
        (let frameCount = (length data div 2) div numChannels in
         if frameCount = 0 then Inl NotSupportedError
         else Inr \<lparr>pcm = data, frames = frameCount, rate = sampleRate\<rparr>))"

section \<open>views/LiveView.tsx: the state of the voice session\<close>

text \<open>
  Browser and SDK objects are kept in tables indexed by their identity (a number given
  at creation): audio contexts, microphone streams, live connections and buffer source
  nodes.
\<close>

datatype audio_context_state = Suspended | Running | Closed

datatype connection_state = Connecting | Opened | Disconnected

record source_node =
  node_buffer :: audio_buffer
  node_context :: nat
  start_time :: real
  stopped :: bool

text \<open>
  One entry per \<^verbatim>\<open>ai.live.connect\<close> call: the connection, and what the callbacks passed
  to that call closed over. \<^verbatim>\<open>isMuted\<close> is a constant of the render in which
  \<^verbatim>\<open>startSession\<close> was called, so the callbacks keep that render's value.
\<close>

record live_session =
  connection :: connection_state
  closure_isMuted :: bool
  closure_stream :: nat
  closure_inputCtx :: nat
  capturing :: bool

datatype outbound =
    RealtimeInput string string
  | ToolResponse "string option" "string option" string

text \<open>
  \<^verbatim>\<open>startSession\<close> is an async function: a call runs up to its next \<^verbatim>\<open>await\<close> and
  continues when the awaited promise settles. A call in flight is its suspension point
  with the local variables that are live there (stream, inputCtx, outputCtx; then the
  session).
\<close>

datatype start_pc =
    AwaitGetUserMedia
  | AwaitResumeInput nat nat nat
  | AwaitResumeOutput nat nat nat
  | AwaitSessionPromise nat
  | Returned

record start_call =
  pc :: start_pc
  render_isMuted :: bool

text \<open>
  The component: its React state, its refs, the environment variable it reads, the
  objects it has created, its calls in flight, what it has sent and saved, and which
  external close or stop calls throw.
\<close>

record system =
  isActive :: bool
  isMuted :: bool
  authError :: "string option"
  isValidating :: bool
  userInput :: string
  aiOutput :: string
  audioContextRef :: "nat option"
  outputAudioContextRef :: "nat option"
  sessionRef :: "nat option"
  nextStartTimeRef :: real
  sourcesRef :: "nat list"
  micStreamRef :: "nat option"
  API_KEY :: "string option"
  contexts :: "audio_context_state list"
  streams :: "bool list"
  sessions :: "live_session list"
  nodes :: "source_node list"
  starts :: "start_call list"
  sent :: "(nat \<times> outbound) list"
  saved :: "string option list"
  session_close_throws :: "nat \<Rightarrow> bool"
  source_stop_throws :: "nat \<Rightarrow> bool"
  context_close_throws :: "nat \<Rightarrow> bool"

text \<open>
  A statement sequence either completes or throws; in both cases the effects made so far
  stay.
\<close>

datatype 'a completion = Normal 'a | Abrupt js_exception 'a

definition state_of :: "'a completion \<Rightarrow> 'a" where
  "state_of c = (case c of Normal s \<Rightarrow> s | Abrupt e s \<Rightarrow> s)"

definition and_then :: "'a completion \<Rightarrow> ('a \<Rightarrow> 'a completion) \<Rightarrow> 'a completion" where
  "and_then c f = (case c of Normal s \<Rightarrow> f s | Abrupt e s \<Rightarrow> Abrupt e s)"

text \<open>\<^verbatim>\<open>try { ... } catch (e) {}\<close>: execution goes on from the state at the throw.\<close>

definition try_catch :: "'a completion \<Rightarrow> 'a" where
  "try_catch c = (case c of Normal s \<Rightarrow> s | Abrupt e s \<Rightarrow> s)"

subsection \<open>External calls\<close>

definition session_close :: "nat \<Rightarrow> system \<Rightarrow> system completion" where
  "session_close k s =
     (if session_close_throws s k then Abrupt InvalidStateError s
      else Normal (s\<lparr>sessions := (sessions s)[k := (sessions s ! k)\<lparr>connection := Disconnected\<rparr>]\<rparr>))"

definition source_stop :: "nat \<Rightarrow> system \<Rightarrow> system completion" where
  "source_stop source s =
     (if source_stop_throws s source then Abrupt InvalidStateError s
      else Normal (s\<lparr>nodes := (nodes s)[source := (nodes s ! source)\<lparr>stopped := True\<rparr>]\<rparr>))"

definition context_close :: "nat \<Rightarrow> system \<Rightarrow> system completion" where
  "context_close c s =
     (if context_close_throws s c then Abrupt InvalidStateError s
      else Normal (s\<lparr>contexts := (contexts s)[c := Closed]\<rparr>))"

text \<open>
  \<^verbatim>\<open>getTracks().forEach(track => track.stop())\<close>: \<^verbatim>\<open>MediaStreamTrack.stop()\<close> has no
  failure case in the Media Capture and Streams specification.
\<close>

definition stop_tracks :: "nat \<Rightarrow> system \<Rightarrow> system completion" where
  "stop_tracks stream s = Normal (s\<lparr>streams := (streams s)[stream := False]\<rparr>)"

definition context_is_closed :: "system \<Rightarrow> nat \<Rightarrow> bool" where
  "context_is_closed s c = (c < length (contexts s) \<and> contexts s ! c = Closed)"

definition context_resume :: "nat \<Rightarrow> system \<Rightarrow> system" where
  "context_resume c s =
     (if c < length (contexts s) \<and> contexts s ! c = Suspended
      then s\<lparr>contexts := (contexts s)[c := Running]\<rparr> else s)"

subsection \<open>\<^verbatim>\<open>stopSession\<close> (lines 29-64)\<close>

text \<open>\<^verbatim>\<open>for (const source of sourcesRef.current) { try { source.stop(); } catch (e) {} }\<close>\<close>

fun stop_sources :: "nat list \<Rightarrow> system \<Rightarrow> system" where
  "stop_sources [] s = s"
| "stop_sources (source # rest) s = stop_sources rest (try_catch (source_stop source s))"

text \<open>Lines 33-40.\<close>

definition close_session :: "system \<Rightarrow> system" where
  "close_session s =
     (case sessionRef s of
        None \<Rightarrow> s
      | Some session \<Rightarrow> (try_catch (session_close session s))\<lparr>sessionRef := None\<rparr>)"

text \<open>Lines 42-48; the same three statements are lines 202-206 of \<^verbatim>\<open>onmessage\<close>.\<close>

definition stop_playback :: "system \<Rightarrow> system" where
  "stop_playback s = (stop_sources (sourcesRef s) s)\<lparr>sourcesRef := [], nextStartTimeRef := 0\<rparr>"

text \<open>Lines 50-53; this block has no \<^verbatim>\<open>try\<close>.\<close>

definition stop_microphone :: "system \<Rightarrow> system completion" where
  "stop_microphone s =
     (case micStreamRef s of
        None \<Rightarrow> Normal s
      | Some stream \<Rightarrow> and_then (stop_tracks stream s) (\<lambda>s'. Normal (s'\<lparr>micStreamRef := None\<rparr>)))"

text \<open>Lines 55-57 for the input context, lines 58-60 for the output context.\<close>

definition close_context :: "nat option \<Rightarrow> system \<Rightarrow> system" where
  "close_context ref s =
     (case ref of
        None \<Rightarrow> s
      | Some c \<Rightarrow> if \<not> context_is_closed s c then try_catch (context_close c s) else s)"

text \<open>
  The two \<^verbatim>\<open>await ctx.close()\<close> are taken to settle before any other event is handled,
  so the routine is one step.
\<close>

definition stopSession :: "system \<Rightarrow> system completion" where
  "stopSession s0 =
     (let s1 = s0\<lparr>isActive := False, isValidating := False\<rparr>;
          s2 = close_session s1;
          s3 = stop_playback s2
      in and_then (stop_microphone s3)
           (\<lambda>s4.
              let s5 = close_context (audioContextRef s4) s4;
                  s6 = close_context (outputAudioContextRef s5) s5
              in Normal (s6\<lparr>audioContextRef := None, outputAudioContextRef := None\<rparr>)))"

subsection \<open>\<^verbatim>\<open>startSession\<close> (lines 82-233)\<close>

text \<open>Lines 83-92 and the call of \<^verbatim>\<open>getUserMedia\<close>: the part before the first \<^verbatim>\<open>await\<close>.\<close>

definition startSession :: "system \<Rightarrow> system" where
  "startSession s0 =
     (let s1 = s0\<lparr>authError := None, isValidating := True, userInput := [], aiOutput := []\<rparr> in
      if API_KEY s1 = None \<or> API_KEY s1 = Some [] then
        s1\<lparr>authError := Some ''No API key detected.'', isValidating := False\<rparr>
      else s1\<lparr>starts := starts s1 @ [\<lparr>pc = AwaitGetUserMedia, render_isMuted = isMuted s0\<rparr>]\<rparr>)"

definition set_pc :: "nat \<Rightarrow> start_pc \<Rightarrow> system \<Rightarrow> system" where
  "set_pc k p s = s\<lparr>starts := (starts s)[k := (starts s ! k)\<lparr>pc := p\<rparr>]\<rparr>"

text \<open>
  The \<^verbatim>\<open>onopen\<close> callback (lines 122-149): the capture pipeline is wired to the stream
  and the input context of this call.
\<close>

definition onopen :: "nat \<Rightarrow> system \<Rightarrow> system" where
  "onopen session s =
     s\<lparr>isActive := True, isValidating := False,
       sessions := (sessions s)[session := (sessions s ! session)\<lparr>capturing := True\<rparr>]\<rparr>"

text \<open>The \<^verbatim>\<open>catch\<close> block (lines 228-232).\<close>

definition catch_block :: "nat \<Rightarrow> system \<Rightarrow> system" where
  "catch_block k s = (set_pc k Returned s)\<lparr>isValidating := False, authError := Some ''Neural sync failed.''\<rparr>"

text \<open>
  The promise that call \<open>k\<close> awaits is fulfilled, and the code up to the next \<^verbatim>\<open>await\<close>
  completes (the case where it throws is \<open>construction_throws\<close> below). The SDK invokes
  \<^verbatim>\<open>onopen\<close> when the connection opens and fulfils the promise of \<^verbatim>\<open>connect\<close> right
  after, so both happen in the last case; the promise of a connection that is no longer
  connecting is not fulfilled.
\<close>

definition fulfil :: "nat \<Rightarrow> system \<Rightarrow> system" where
  "fulfil k s =
     (if k < length (starts s) then
        (case pc (starts s ! k) of
           AwaitGetUserMedia \<Rightarrow>
             (let stream = length (streams s);
                  inputCtx = length (contexts s);
                  outputCtx = length (contexts s) + 1
              in (set_pc k (AwaitResumeInput stream inputCtx outputCtx) s)
                   \<lparr>streams := streams s @ [True],
                    micStreamRef := Some stream,
                    contexts := contexts s @ [Suspended, Suspended]\<rparr>)
         | AwaitResumeInput stream inputCtx outputCtx \<Rightarrow>
             context_resume inputCtx (set_pc k (AwaitResumeOutput stream inputCtx outputCtx) s)
         | AwaitResumeOutput stream inputCtx outputCtx \<Rightarrow>
             (let s1 = context_resume outputCtx s;
                  session = length (sessions s1)
              in (set_pc k (AwaitSessionPromise session) s1)
                   \<lparr>audioContextRef := Some inputCtx,
                    outputAudioContextRef := Some outputCtx,
                    sessions := sessions s1 @
                      [\<lparr>connection = Connecting,
                        closure_isMuted = render_isMuted (starts s ! k),
                        closure_stream = stream,
                        closure_inputCtx = inputCtx,
                        capturing = False\<rparr>]\<rparr>)
         | AwaitSessionPromise session \<Rightarrow>
             (if session < length (sessions s) \<and> connection (sessions s ! session) = Connecting then
                (let s1 = s\<lparr>sessions := (sessions s)[session := (sessions s ! session)\<lparr>connection := Opened\<rparr>]\<rparr>;
                     s2 = onopen session s1
                 in (set_pc k Returned s2)\<lparr>sessionRef := Some session\<rparr>)
              else s)
         | Returned \<Rightarrow> s)
      else s)"

text \<open>
  The promise that call \<open>k\<close> awaits is rejected: the \<^verbatim>\<open>catch\<close> block runs. Nothing that
  the call has made is released there.
\<close>

definition reject :: "nat \<Rightarrow> system \<Rightarrow> system" where
  "reject k s =
     (if k < length (starts s) \<and> pc (starts s ! k) \<noteq> Returned then catch_block k s else s)"

text \<open>
  Every promise that call \<open>k\<close> still awaits is fulfilled, one after the other. A call has
  four awaits, and fulfilling a call that has returned does nothing.
\<close>

definition fulfil_all :: "nat \<Rightarrow> system \<Rightarrow> system" where
  "fulfil_all k s = fulfil k (fulfil k (fulfil k (fulfil k s)))"

text \<open>
  Between the fulfilment of \<^verbatim>\<open>getUserMedia\<close> and the next \<^verbatim>\<open>await\<close> the call stores the
  stream in \<^verbatim>\<open>micStreamRef\<close> (line 96) and constructs the SDK client and the two audio
  contexts (lines 98-107), all inside the \<^verbatim>\<open>try\<close>. When a constructor throws, the
  \<^verbatim>\<open>catch\<close> block runs with the stream granted and stored. \<open>input_built\<close> says whether the
  input context had been constructed, that is, whether the constructor that throws is
  the one of the output context.
\<close>

definition construction_throws :: "nat \<Rightarrow> bool \<Rightarrow> system \<Rightarrow> system" where
  "construction_throws k input_built s =
     (if k < length (starts s) \<and> pc (starts s ! k) = AwaitGetUserMedia then
        catch_block k
          (s\<lparr>streams := streams s @ [True],
             micStreamRef := Some (length (streams s)),
             contexts := contexts s @ (if input_built then [Suspended] else [])\<rparr>)
      else s)"

subsection \<open>\<^verbatim>\<open>onaudioprocess\<close> (lines 129-145)\<close>

text \<open>
  \<open>frame\<close> is the content of \<^verbatim>\<open>int16.buffer\<close> as bytes; the conversion from the
  floating-point samples is not modelled.
\<close>

definition onaudioprocess :: "nat \<Rightarrow> bytes \<Rightarrow> system \<Rightarrow> system" where
  "onaudioprocess session frame s =
     (if closure_isMuted (sessions s ! session) then s
      else s\<lparr>sent := sent s @ [(session, RealtimeInput (encodeBase64 frame) ''audio/pcm;rate=16000'')]\<rparr>)"

subsection \<open>\<^verbatim>\<open>onmessage\<close> (lines 150-208)\<close>

text \<open>
  The fields of a \<^verbatim>\<open>LiveServerMessage\<close> the handler reads. \<open>None\<close> stands for
  \<^verbatim>\<open>undefined\<close>: \<open>toolCall = Some None\<close> is a tool call without \<^verbatim>\<open>functionCalls\<close>,
  \<open>fc_args = Some None\<close> is \<^verbatim>\<open>args\<close> without \<^verbatim>\<open>info\<close>, \<open>inlineData = Some None\<close> is
  inline data without \<^verbatim>\<open>data\<close>.
\<close>

record function_call =
  fc_id :: "string option"
  fc_name :: "string option"
  fc_args :: "string option option"

record part =
  inlineData :: "string option option"

record message =
  toolCall :: "function_call list option option"
  inputTranscription :: "string option"
  outputTranscription :: "string option"
  parts :: "part list option"
  interrupted :: bool

definition acknowledgement :: string where
  "acknowledgement = ''I have saved that in my neural vault. I will remember it.''"

definition is_save :: "function_call \<Rightarrow> bool" where
  "is_save fc = (fc_name fc = Some ''save_important_info'')"

text \<open>
  Lines 153-165. \<^verbatim>\<open>(fc.args as any).info\<close> throws a \<^verbatim>\<open>TypeError\<close> when \<^verbatim>\<open>args\<close> is
  undefined. \<^verbatim>\<open>sessionPromise\<close> is the promise of the call that made this connection,
  so the response goes to the session the message came from; the \<^verbatim>\<open>then\<close> callbacks run
  in the order they were registered.
\<close>

fun function_calls :: "nat \<Rightarrow> function_call list \<Rightarrow> system \<Rightarrow> system completion" where
  "function_calls session [] s = Normal s"
| "function_calls session (fc # fcs) s =
     (if fc_name fc = Some ''save_important_info'' then
        (case fc_args fc of
           None \<Rightarrow> Abrupt TypeError s
         | Some info \<Rightarrow>
             function_calls session fcs
               (s\<lparr>saved := saved s @ [info],
                  sent := sent s @ [(session, ToolResponse (fc_id fc) (fc_name fc) acknowledgement)]\<rparr>))
      else function_calls session fcs s)"

definition tool_calls :: "nat \<Rightarrow> message \<Rightarrow> system \<Rightarrow> system completion" where
  "tool_calls session m s =
     (case toolCall m of
        None \<Rightarrow> Normal s
      | Some None \<Rightarrow> Abrupt TypeError s
      | Some (Some fcs) \<Rightarrow> function_calls session fcs s)"

text \<open>Lines 168-175.\<close>

definition transcriptions :: "message \<Rightarrow> system \<Rightarrow> system" where
  "transcriptions m s =
     (let s1 = (case inputTranscription m of
                  None \<Rightarrow> s
                | Some text \<Rightarrow> if text \<noteq> [] then s\<lparr>userInput := text\<rparr> else s)
      in case outputTranscription m of
           None \<Rightarrow> s1
         | Some text \<Rightarrow> if text \<noteq> [] then s1\<lparr>aiOutput := text\<rparr> else s1)"

text \<open>Lines 187-198: the source node is created, started and registered.\<close>

definition schedule :: "nat \<Rightarrow> audio_buffer \<Rightarrow> real \<Rightarrow> system \<Rightarrow> system" where
  "schedule ctx buffer now s =
     (let source = length (nodes s);
          startAt = max (nextStartTimeRef s) now
      in s\<lparr>nodes := nodes s @
              [\<lparr>node_buffer = buffer, node_context = ctx, start_time = startAt, stopped = False\<rparr>],
           nextStartTimeRef := startAt + duration buffer,
           sourcesRef := sourcesRef s @ [source]\<rparr>)"

text \<open>Lines 177-178.\<close>

definition audioPart :: "message \<Rightarrow> part option" where
  "audioPart m = (case parts m of None \<Rightarrow> None | Some ps \<Rightarrow> find (\<lambda>p. inlineData p \<noteq> None) ps)"

definition base64Audio :: "message \<Rightarrow> string option" where
  "base64Audio m =
     (case audioPart m of
        None \<Rightarrow> None
      | Some p \<Rightarrow> (case inlineData p of None \<Rightarrow> None | Some d \<Rightarrow> d))"

text \<open>Lines 180-199; \<open>now\<close> is \<^verbatim>\<open>ctx.currentTime\<close> when the handler reads it.\<close>

definition play_audio :: "message \<Rightarrow> real \<Rightarrow> system \<Rightarrow> system completion" where
  "play_audio m now s =
     (case base64Audio m of
        None \<Rightarrow> Normal s
      | Some b64 \<Rightarrow>
          (case outputAudioContextRef s of
             None \<Rightarrow> Normal s
           | Some ctx \<Rightarrow>
               if b64 = [] then Normal s
               else
                 (let s1 = context_resume ctx s in
                  case decodeBase64 b64 of
                    Inl e \<Rightarrow> Abrupt e s1
                  | Inr decoded \<Rightarrow>
                      (case decodeAudioData decoded 24000 1 of
                         Inl e \<Rightarrow> Abrupt e s1
                       | Inr buffer \<Rightarrow> Normal (schedule ctx buffer now s1)))))"

text \<open>Lines 201-207.\<close>

definition interruption :: "message \<Rightarrow> system \<Rightarrow> system" where
  "interruption m s = (if interrupted m then stop_playback s else s)"

text \<open>
  The handler is async; its two awaits (\<^verbatim>\<open>ctx.resume()\<close> and \<^verbatim>\<open>decodeAudioData\<close>) are
  taken to settle before the next event is handled, so one message is one step.
\<close>

definition onmessage :: "nat \<Rightarrow> message \<Rightarrow> real \<Rightarrow> system \<Rightarrow> system completion" where
  "onmessage session m now s =
     and_then (tool_calls session m s)
       (\<lambda>s1. and_then (play_audio m now (transcriptions m s1))
          (\<lambda>s2. Normal (interruption m s2)))"

subsection \<open>The buttons (lines 267-285) and the events of a run\<close>

text \<open>
  The round button is disabled while \<^verbatim>\<open>isValidating\<close>; otherwise it calls
  \<^verbatim>\<open>stopSession\<close> when \<^verbatim>\<open>isActive\<close> and \<^verbatim>\<open>startSession\<close> when not.
\<close>

definition click_main :: "system \<Rightarrow> system" where
  "click_main s =
     (if isValidating s then s
      else if isActive s then state_of (stopSession s)
      else startSession s)"

definition toggleMute :: "system \<Rightarrow> system" where
  "toggleMute s = s\<lparr>isMuted := \<not> isMuted s\<rparr>"

text \<open>
  What can happen to the component: the user's clicks on the round button and the mute
  button, a direct call of \<^verbatim>\<open>startSession\<close>, a direct call of \<^verbatim>\<open>stopSession\<close> (the
  hang-up button, which is always enabled, and the unmount effect), the settling of the
  promise a call in flight awaits, a constructor that throws after the microphone was
  granted, and the callbacks of a connection. A message and an audio frame are delivered
  only on an open connection; a frame only while the input context of the pipeline runs.
  \<^verbatim>\<open>source.onended\<close> removes the node from the set. An exception that leaves a handler
  is an unhandled rejection: the effects made before it stay.
\<close>

datatype event =
    ClickMain
  | ClickMute
  | Start
  | Stop
  | Fulfil nat
  | Reject nat
  | ConstructorThrows nat bool
  | Message nat message real
  | AudioProcess nat bytes
  | Ended nat
  | OnClose nat
  | OnError nat

definition disconnect :: "nat \<Rightarrow> system \<Rightarrow> system" where
  "disconnect session s =
     s\<lparr>sessions := (sessions s)[session := (sessions s ! session)\<lparr>connection := Disconnected\<rparr>]\<rparr>"

fun step :: "event \<Rightarrow> system \<Rightarrow> system" where
  "step ClickMain s = click_main s"
| "step ClickMute s = toggleMute s"
| "step Start s = startSession s"
| "step Stop s = state_of (stopSession s)"
| "step (Fulfil k) s = fulfil k s"
| "step (Reject k) s = reject k s"
| "step (ConstructorThrows k input_built) s = construction_throws k input_built s"
| "step (Message session m now) s =
     (if session < length (sessions s) \<and> connection (sessions s ! session) = Opened
      then state_of (onmessage session m now s) else s)"
| "step (AudioProcess session frame) s =
     (if session < length (sessions s) \<and> connection (sessions s ! session) = Opened \<and>
         capturing (sessions s ! session) \<and>
         closure_inputCtx (sessions s ! session) < length (contexts s) \<and>
         contexts s ! closure_inputCtx (sessions s ! session) = Running
      then onaudioprocess session frame s else s)"
| "step (Ended source) s = s\<lparr>sourcesRef := removeAll source (sourcesRef s)\<rparr>"
| "step (OnClose session) s =
     (if session < length (sessions s) then state_of (stopSession (disconnect session s)) else s)"
| "step (OnError session) s =
     (if session < length (sessions s) then state_of (stopSession (disconnect session s)) else s)"

definition run :: "event list \<Rightarrow> system \<Rightarrow> system" where
  "run evs s = fold step evs s"

text \<open>
  The component when it is mounted: nothing created, nothing in flight. In \<open>mounted\<close> no
  close or stop call of the platform ever throws; in \<open>mounted_on\<close> they throw as given.
\<close>

definition mounted :: "string option \<Rightarrow> system" where
  "mounted key =
     \<lparr>isActive = False, isMuted = False, authError = None, isValidating = False,
      userInput = [], aiOutput = [],
      audioContextRef = None, outputAudioContextRef = None, sessionRef = None,
      nextStartTimeRef = 0, sourcesRef = [], micStreamRef = None,
      API_KEY = key,
      contexts = [], streams = [], sessions = [], nodes = [], starts = [],
      sent = [], saved = [],
      session_close_throws = (\<lambda>k. False),
      source_stop_throws = (\<lambda>k. False),
      context_close_throws = (\<lambda>k. False)\<rparr>"

definition mounted_on ::
  "string option \<Rightarrow> (nat \<Rightarrow> bool) \<Rightarrow> (nat \<Rightarrow> bool) \<Rightarrow> (nat \<Rightarrow> bool) \<Rightarrow> system" where
  "mounted_on key session_throws source_throws context_throws =
     (mounted key)\<lparr>session_close_throws := session_throws,
                    source_stop_throws := source_throws,
                    context_close_throws := context_throws\<rparr>"

text \<open>What is live: contexts not closed, streams with live tracks, connections not closed.\<close>

definition open_contexts :: "system \<Rightarrow> nat" where
  "open_contexts s = length (filter (\<lambda>c. c \<noteq> Closed) (contexts s))"

definition live_streams :: "system \<Rightarrow> nat" where
  "live_streams s = length (filter (\<lambda>live. live) (streams s))"

definition live_sessions :: "system \<Rightarrow> nat" where
  "live_sessions s = length (filter (\<lambda>x. connection x \<noteq> Disconnected) (sessions s))"

definition Idle :: "system \<Rightarrow> bool" where
  "Idle s = (\<not> isActive s \<and> \<not> isValidating s)"


section \<open>Vocabulary for the properties\<close>



text \<open>What a tool call passes to the callback, and the response sent for it.\<close>

definition info_of :: "function_call \<Rightarrow> string option" where
  "info_of fc = (case fc_args fc of None \<Rightarrow> None | Some info \<Rightarrow> info)"

definition tool_response :: "nat \<Rightarrow> function_call \<Rightarrow> nat \<times> outbound" where
  "tool_response session fc = (session, ToolResponse (fc_id fc) (fc_name fc) acknowledgement)"

text \<open>
  The buffer that the audio of a message decodes to, when it has audio that decodes
  (lines 177-185).
\<close>

definition chunk_of :: "message \<Rightarrow> audio_buffer option" where
  "chunk_of m =
     (case base64Audio m of
        None \<Rightarrow> None
      | Some b64 \<Rightarrow>
          if b64 = [] then None
          else (case decodeBase64 b64 of
                  Inl e \<Rightarrow> None
                | Inr decoded \<Rightarrow>
                    (case decodeAudioData decoded 24000 1 of
                       Inl e \<Rightarrow> None
                     | Inr buffer \<Rightarrow> Some buffer)))"

text \<open>
  A \<^verbatim>\<open>startSession\<close> call is in flight when it has not returned and the promise it awaits
  can still be fulfilled: the promise of \<^verbatim>\<open>connect\<close> no longer can once the connection
  has left the connecting state without it (closed before it opened).
  \<open>in_flight s K\<close>: no call outside \<open>K\<close> is in flight.
\<close>

definition call_in_flight :: "system \<Rightarrow> nat \<Rightarrow> bool" where
  "call_in_flight s j =
     (j < length (starts s) \<and>
      (case pc (starts s ! j) of
         AwaitSessionPromise session \<Rightarrow>
           session < length (sessions s) \<longrightarrow> connection (sessions s ! session) = Connecting
       | Returned \<Rightarrow> False
       | _ \<Rightarrow> True))"

definition in_flight :: "system \<Rightarrow> nat set \<Rightarrow> bool" where
  "in_flight s K = (\<forall>j<length (starts s). j \<notin> K \<longrightarrow> \<not> call_in_flight s j)"


text \<open>
  Which objects are still live, by identity: every context that is not closed is in \<open>C\<close>,
  every stream with live tracks is in \<open>M\<close>, every connection that is not closed is in \<open>S\<close>.
\<close>

definition contexts_within :: "system \<Rightarrow> nat set \<Rightarrow> bool" where
  "contexts_within s C = (\<forall>c<length (contexts s). contexts s ! c \<noteq> Closed \<longrightarrow> c \<in> C)"

definition streams_within :: "system \<Rightarrow> nat set \<Rightarrow> bool" where
  "streams_within s M = (\<forall>m<length (streams s). streams s ! m \<longrightarrow> m \<in> M)"

definition sessions_within :: "system \<Rightarrow> nat set \<Rightarrow> bool" where
  "sessions_within s S = (\<forall>j<length (sessions s). connection (sessions s ! j) \<noteq> Disconnected \<longrightarrow> j \<in> S)"

text \<open>What the component holds in its refs.\<close>

definition held_contexts :: "system \<Rightarrow> nat set" where
  "held_contexts s = set_option (audioContextRef s) \<union> set_option (outputAudioContextRef s)"

definition held_streams :: "system \<Rightarrow> nat set" where
  "held_streams s = set_option (micStreamRef s)"




definition asking :: "system \<Rightarrow> nat \<Rightarrow> bool" where
  "asking s k =
     (\<not> isActive s \<and> sessionRef s = None \<and> k < length (starts s) \<and>
      pc (starts s ! k) = AwaitGetUserMedia \<and> in_flight s {k} \<and>
      contexts_within s {} \<and> streams_within s {} \<and> sessions_within s {})"

definition resuming :: "system \<Rightarrow> nat \<Rightarrow> nat \<Rightarrow> nat \<Rightarrow> nat \<Rightarrow> bool" where
  "resuming s k stream inputCtx outputCtx =
     (\<not> isActive s \<and> sessionRef s = None \<and> k < length (starts s) \<and>
      (pc (starts s ! k) = AwaitResumeInput stream inputCtx outputCtx \<or>
       pc (starts s ! k) = AwaitResumeOutput stream inputCtx outputCtx) \<and>
      in_flight s {k} \<and>
      contexts_within s {inputCtx, outputCtx} \<and>
      streams_within s ({stream} \<inter> held_streams s) \<and> sessions_within s {})"

definition connecting :: "system \<Rightarrow> nat \<Rightarrow> nat \<Rightarrow> nat \<Rightarrow> nat \<Rightarrow> nat \<Rightarrow> bool" where
  "connecting s k session stream inputCtx outputCtx =
     (\<not> isActive s \<and> sessionRef s = None \<and> k < length (starts s) \<and>
      pc (starts s ! k) = AwaitSessionPromise session \<and>
      session < length (sessions s) \<and> connection (sessions s ! session) = Connecting \<and>
      in_flight s {k} \<and>
      contexts_within s ({inputCtx, outputCtx} \<inter> held_contexts s) \<and>
      streams_within s ({stream} \<inter> held_streams s) \<and> sessions_within s {session})"




section \<open>Example runs and messages\<close>

text \<open>
  A session started with the round button and brought up to the open connection: the
  microphone is granted, both contexts resume, the handshake resolves.
\<close>

definition one_session :: "event list" where
  "one_session = [ClickMain, Fulfil 0, Fulfil 0, Fulfil 0, Fulfil 0]"

definition listening :: system where
  "listening = run one_session (mounted (Some ''key''))"



text \<open>A session is started, stopped and started again, all with the round button.\<close>

definition restart :: "event list" where
  "restart = one_session @ [ClickMain, ClickMain, Fulfil 1, Fulfil 1, Fulfil 1, Fulfil 1]"

text \<open>\<^verbatim>\<open>stopSession\<close> runs while the first call still awaits the handshake, which then resolves.\<close>

definition handshake_after_stop :: "event list" where
  "handshake_after_stop = [Start, Fulfil 0, Fulfil 0, Fulfil 0, Stop, Fulfil 0]"


text \<open>
  \<^verbatim>\<open>stopSession\<close> runs while the call awaits \<^verbatim>\<open>getUserMedia\<close>; then the microphone is
  granted, both contexts resume and the handshake resolves.
\<close>

definition grant_after_stop :: "event list" where
  "grant_after_stop = [Start, Stop, Fulfil 0, Fulfil 0, Fulfil 0, Fulfil 0]"

text \<open>
  \<^verbatim>\<open>stopSession\<close> runs while the call awaits \<^verbatim>\<open>inputCtx.resume()\<close>; then both contexts
  resume and the handshake resolves.
\<close>

definition resume_after_stop :: "event list" where
  "resume_after_stop = [Start, Fulfil 0, Stop, Fulfil 0, Fulfil 0, Fulfil 0]"

text \<open>
  The user starts with the round button, hangs up while the microphone is being asked
  for, and clicks the round button again, which is enabled again; then both calls
  complete.
\<close>

definition hang_up_then_restart :: "event list" where
  "hang_up_then_restart =
     [ClickMain, Stop, ClickMain,
      Fulfil 0, Fulfil 0, Fulfil 0, Fulfil 0, Fulfil 1, Fulfil 1, Fulfil 1, Fulfil 1]"

text \<open>
  The handshake of the first start is rejected; the user clicks the round button again and
  the microphone is granted.
\<close>

definition retry_after_rejection :: "event list" where
  "retry_after_rejection = [ClickMain, Fulfil 0, Fulfil 0, Fulfil 0, Reject 0, ClickMain, Fulfil 1]"

text \<open>
  A constructor throws in the first start, before any context exists; the user clicks
  the round button again and the microphone is granted.
\<close>

definition retry_after_throw :: "event list" where
  "retry_after_throw = [ClickMain, ConstructorThrows 0 False, ClickMain, Fulfil 1]"

text \<open>The session is started unmuted; then the user mutes and a frame is captured.\<close>

definition mute_after_start :: "event list" where
  "mute_after_start =
     [Start, Fulfil 0, Fulfil 0, Fulfil 0, Fulfil 0, ClickMute, AudioProcess 0 [1, 2, 3, 4]]"

text \<open>The session is started muted; then the user unmutes and a frame is captured.\<close>

definition unmute_after_start :: "event list" where
  "unmute_after_start =
     [ClickMute, Start, Fulfil 0, Fulfil 0, Fulfil 0, Fulfil 0, ClickMute, AudioProcess 0 [1, 2, 3, 4]]"

definition audio_message :: "bytes \<Rightarrow> message" where
  "audio_message data =
     \<lparr>toolCall = None, inputTranscription = None, outputTranscription = None,
      parts = Some [\<lparr>inlineData = Some (Some (encodeBase64 data))\<rparr>], interrupted = False\<rparr>"

definition interruption_message :: message where
  "interruption_message =
     \<lparr>toolCall = None, inputTranscription = None, outputTranscription = None,
      parts = None, interrupted = True\<rparr>"

definition two_saves :: message where
  "two_saves =
     \<lparr>toolCall = Some (Some
        [\<lparr>fc_id = Some ''abc'', fc_name = Some ''save_important_info'',
          fc_args = Some (Some ''User's birthday is March 5'')\<rparr>,
         \<lparr>fc_id = Some ''x'', fc_name = Some ''other_tool'', fc_args = None\<rparr>,
         \<lparr>fc_id = Some ''def'', fc_name = Some ''save_important_info'',
          fc_args = Some (Some ''Likes tea'')\<rparr>]),
      inputTranscription = None, outputTranscription = None, parts = None, interrupted = False\<rparr>"

definition two_audio_parts :: message where
  "two_audio_parts =
     \<lparr>toolCall = None, inputTranscription = None, outputTranscription = None,
      parts = Some [\<lparr>inlineData = None\<rparr>,
                    \<lparr>inlineData = Some (Some (encodeBase64 [1, 0, 2, 0]))\<rparr>,
                    \<lparr>inlineData = Some (Some (encodeBase64 [3, 0, 4, 0]))\<rparr>],
      interrupted = False\<rparr>"

text \<open>A request that is rate-limited twice and then answered.\<close>

definition limited_twice :: "nat \<Rightarrow> nat attempt" where
  "limited_twice i = (if i < 2 then Throws (JsError (Some ''429 Too Many Requests'')) else Returns 7)"



section \<open>Base64: decoding undoes encoding\<close>

lemma distinct_b64_alphabet: "distinct b64_alphabet"
  by (simp add: b64_alphabet_def)

lemma length_b64_alphabet: "length b64_alphabet = 64"
  by (simp add: b64_alphabet_def)

lemma index_of_nth: "distinct xs \<Longrightarrow> n < length xs \<Longrightarrow> index_of (xs ! n) xs = Some n"
proof (induction xs arbitrary: n)
  case Nil
  then show ?case by simp
next
  case (Cons x xs)
  show ?case
  proof (cases n)
    case 0
    then show ?thesis by simp
  next
    case (Suc m)
    with Cons.prems have "xs ! m \<noteq> x" "m < length xs" "distinct xs"
      by auto
    with Cons.IH[of m] Suc show ?thesis by auto
  qed
qed

lemma b64_value_char: "n < 64 \<Longrightarrow> b64_value (b64_char n) = Some n"
  unfolding b64_value_def b64_char_def
  by (rule index_of_nth) (simp_all add: distinct_b64_alphabet length_b64_alphabet)

lemma b64_char_in: "n < 64 \<Longrightarrow> b64_char n \<in> set b64_alphabet"
  unfolding b64_char_def by (simp add: length_b64_alphabet)

lemma b64_alphabet_not_pad: "c \<in> set b64_alphabet \<Longrightarrow> c \<noteq> CHR ''=''"
  by (auto simp add: b64_alphabet_def)

lemma b64_alphabet_not_ws: "c \<in> set b64_alphabet \<Longrightarrow> \<not> ascii_whitespace c"
  by (auto simp add: b64_alphabet_def ascii_whitespace_def)

lemma b64_char_not_pad: "n < 64 \<Longrightarrow> b64_char n \<noteq> CHR ''=''"
  using b64_char_in b64_alphabet_not_pad by blast

lemma b64_char_not_ws: "n < 64 \<Longrightarrow> \<not> ascii_whitespace (b64_char n)"
  using b64_char_in b64_alphabet_not_ws by blast

lemma pad_not_ws: "\<not> ascii_whitespace CHR ''=''"
  by (simp add: ascii_whitespace_def)

lemma sextet_bounds:
  fixes a b c :: nat
  assumes "a < 256" "b < 256" "c < 256"
  shows "a div 4 < 64" "(a mod 4) * 16 + b div 16 < 64" "(b mod 16) * 4 + c div 64 < 64"
    "c mod 64 < 64" "(b mod 16) * 4 < 64" "(a mod 4) * 16 < 64"
  using assms by auto

lemma btoa_units_no_ws:
  "\<forall>u\<in>set us. u < 256 \<Longrightarrow> filter (\<lambda>c. \<not> ascii_whitespace c) (btoa_units us) = btoa_units us"
proof (induction us rule: btoa_units.induct)
  case (1 a b c rest)
  then have "a < 256" "b < 256" "c < 256" by auto
  from sextet_bounds(1-4)[OF this] 1 show ?case
    by (simp add: b64_char_not_ws)
next
  case (2 a b)
  then have "a < 256" "b < 256" "(0::nat) < 256" by auto
  from sextet_bounds[OF this] show ?case
    by (simp add: b64_char_not_ws pad_not_ws)
next
  case (3 a)
  then have "a < 256" "(0::nat) < 256" "(0::nat) < 256" by auto
  from sextet_bounds[OF this] show ?case
    by (simp add: b64_char_not_ws pad_not_ws)
next
  case 4
  show ?case by simp
qed

lemma length_btoa_units: "length (btoa_units us) mod 4 = 0"
  by (induction us rule: btoa_units.induct) simp_all

lemma btoa_units_Nil: "btoa_units us = [] \<longleftrightarrow> us = []"
  by (induction us rule: btoa_units.induct) simp_all

lemma strip_padding_block:
  assumes "length e mod 4 = 0" "e \<noteq> []"
  shows "strip_padding (x1 # x2 # x3 # x4 # e) = x1 # x2 # x3 # x4 # strip_padding e"
proof -
  from assms have len: "4 \<le> length e"
    by (cases e) (auto simp: mod_Suc split: if_splits)
  then have "butlast e \<noteq> []"
    by (cases e) auto
  with assms len show ?thesis
    by (simp add: strip_padding_def)
qed

lemma atob_body:
  assumes "\<forall>u\<in>set us. u < 256"
  shows "length (strip_padding (btoa_units us)) mod 4 \<noteq> 1 \<and>
    (\<exists>vs. those (map b64_value (strip_padding (btoa_units us))) = Some vs \<and> atob_sextets vs = us)"
  using assms
proof (induction us rule: btoa_units.induct)
  case (1 a b c rest)
  then have abc: "a < 256" "b < 256" "c < 256" and rest: "\<forall>u\<in>set rest. u < 256"
    by auto
  note sb = sextet_bounds(1-4)[OF abc]
  have ra: "a div 4 * 4 + ((a mod 4) * 16 + b div 16) div 16 = a"
    using abc by auto
  have rb: "(((a mod 4) * 16 + b div 16) mod 16) * 16 + ((b mod 16) * 4 + c div 64) div 4 = b"
    using abc by auto
  have rc: "(((b mod 16) * 4 + c div 64) mod 4) * 64 + c mod 64 = c"
    using abc by auto
  show ?case
  proof (cases "rest = []")
    case True
    with sb ra rb rc show ?thesis
      by (simp add: strip_padding_def b64_char_not_pad b64_value_char)
  next
    case False
    then have ne: "btoa_units rest \<noteq> []"
      by (simp add: btoa_units_Nil)
    from "1.IH"[OF rest] obtain vs where
      l: "length (strip_padding (btoa_units rest)) mod 4 \<noteq> 1" and
      v: "those (map b64_value (strip_padding (btoa_units rest))) = Some vs" and
      d: "atob_sextets vs = rest"
      by blast
    from l v d sb ra rb rc show ?thesis
      by (simp add: strip_padding_block[OF length_btoa_units ne] b64_value_char mod_Suc)
  qed
next
  case (2 a b)
  then have abc: "a < 256" "b < 256" "(0::nat) < 256" by auto
  note sb = sextet_bounds[OF abc]
  have ra: "a div 4 * 4 + ((a mod 4) * 16 + b div 16) div 16 = a"
    using abc by auto
  have rb: "(((a mod 4) * 16 + b div 16) mod 16) * 16 + ((b mod 16) * 4) div 4 = b"
    using abc by auto
  from sb ra rb show ?case
    by (simp add: strip_padding_def b64_char_not_pad b64_value_char)
next
  case (3 a)
  then have abc: "a < 256" "(0::nat) < 256" "(0::nat) < 256" by auto
  note sb = sextet_bounds[OF abc]
  have ra: "a div 4 * 4 + ((a mod 4) * 16) div 16 = a"
    using abc by auto
  from sb ra show ?case
    by (simp add: strip_padding_def b64_char_not_pad b64_value_char)
next
  case 4
  show ?case by (simp add: strip_padding_def)
qed

lemma atob_btoa_units:
  assumes "\<forall>u\<in>set us. u < 256"
  shows "atob (btoa_units us) = Inr (map char_of us)"
proof -
  from atob_body[OF assms] obtain vs where
    l: "length (strip_padding (btoa_units us)) mod 4 \<noteq> 1" and
    v: "those (map b64_value (strip_padding (btoa_units us))) = Some vs" and
    d: "atob_sextets vs = us"
    by blast
  then show ?thesis
    by (simp add: atob_def btoa_units_no_ws[OF assms])
qed

lemma atob_btoa: "atob (btoa s) = Inr s"
proof -
  have "\<forall>u\<in>set (map of_char s :: nat list). u < 256"
    by simp
  from atob_btoa_units[OF this] show ?thesis
    by (simp add: btoa_def comp_def)
qed

lemma encodeBase64_loop_eq:
  "encodeBase64_loop bs i binary = binary @ map fromCharCode (drop i bs)"
proof (induction bs i binary rule: encodeBase64_loop.induct)
  case (1 bytes i binary)
  show ?case
  proof (cases "i < length bytes")
    case True
    with 1 show ?thesis
      by (subst encodeBase64_loop.simps) (simp add: Cons_nth_drop_Suc[symmetric])
  next
    case False
    then show ?thesis by (subst encodeBase64_loop.simps) simp
  qed
qed

lemma decodeBase64_loop_eq:
  "length bs = length s \<Longrightarrow>
   decodeBase64_loop s i bs = take i bs @ map (\<lambda>c. word_of_nat (of_char c)) (drop i s)"
proof (induction s i bs rule: decodeBase64_loop.induct)
  case (1 binaryString i bytes)
  show ?case
  proof (cases "i < length binaryString")
    case True
    with 1 show ?thesis
      by (subst decodeBase64_loop.simps)
        (simp add: charCodeAt_def take_Suc_conv_app_nth Cons_nth_drop_Suc[symmetric])
  next
    case False
    with 1 show ?thesis by (subst decodeBase64_loop.simps) simp
  qed
qed

lemma byte_roundtrip: "word_of_nat (of_char (fromCharCode b)) = (b :: 8 word)"
proof -
  have "unat b < 256"
    using unsigned_less[of b, where ?'a=nat] by simp
  then show ?thesis
    by (simp add: fromCharCode_def)
qed

lemma decode_encode: "decodeBase64 (encodeBase64 b) = Inr b"
  by (simp add: decodeBase64_def encodeBase64_def atob_btoa encodeBase64_loop_eq
      decodeBase64_loop_eq byte_roundtrip comp_def)

lemma encodeBase64_not_Nil: "b \<noteq> [] \<Longrightarrow> encodeBase64 b \<noteq> []"
proof
  assume b: "b \<noteq> []" and e: "encodeBase64 b = []"
  have "decodeBase64 [] = Inr []"
    by (simp add: decodeBase64_def atob_def strip_padding_def decodeBase64_loop_eq)
  with decode_encode[of b] e b show False by simp
qed

text \<open>
  Claim C9. For every byte array \<open>b\<close>, \<^verbatim>\<open>decodeBase64(encodeBase64(b))\<close> returns a byte
  array equal to \<open>b\<close>: the pair used for outgoing and incoming audio payloads is a round
  trip, and the decoding does not throw.
\<close>

theorem decodeBase64_encodeBase64: "decodeBase64 (encodeBase64 b) = Inr b"
proof -
  have binary: "encodeBase64_loop b 0 [] = map fromCharCode b"
    by (simp add: encodeBase64_loop_eq)
  have "atob (encodeBase64 b) = Inr (map fromCharCode b)"
    by (simp add: encodeBase64_def binary atob_btoa)
  then have "decodeBase64 (encodeBase64 b) =
      Inr (map (\<lambda>c. word_of_nat (of_char c)) (map fromCharCode b))"
    by (simp add: decodeBase64_def decodeBase64_loop_eq)
  also have "map (\<lambda>c. word_of_nat (of_char c)) (map fromCharCode b) = b"
    by (simp add: byte_roundtrip comp_def)
  finally show ?thesis .
qed

theorem decodeBase64_encodeBase64_witness:
  "decodeBase64 (encodeBase64 [1, 2, 255, 0]) = Inr [1, 2, 255, 0]"
  using decodeBase64_encodeBase64 [of "[1, 2, 255, 0]"] by simp

section \<open>The retry policy of \<^verbatim>\<open>callWithRetry\<close>\<close>

lemma loop_retry_step:
  assumes "fn i = Throws e" "retryable e" "int i < maxRetries"
  shows "callWithRetry_loop fn maxRetries d i l w =
    callWithRetry_loop fn maxRetries d (Suc i) e (w @ [d * 2 ^ i])"
  using assms by (subst callWithRetry_loop.simps) (simp add: retryable_def)

lemma loop_skip:
  assumes "\<forall>j<n. \<exists>e. fn j = Throws e \<and> retryable e" "int n \<le> maxRetries"
  shows "\<exists>l. callWithRetry_loop fn maxRetries d 0 Undefined [] =
    callWithRetry_loop fn maxRetries d n l (backoff d n)"
  using assms
proof (induction n)
  case 0
  show ?case by (auto simp: backoff_def)
next
  case (Suc n)
  then obtain l where l: "callWithRetry_loop fn maxRetries d 0 Undefined [] =
    callWithRetry_loop fn maxRetries d n l (backoff d n)"
    by auto
  from Suc.prems obtain e where e: "fn n = Throws e" "retryable e"
    by auto
  from Suc.prems have "int n < maxRetries" by simp
  from loop_retry_step[of fn n e maxRetries d l "backoff d n", OF e this] l show ?case
    by (auto simp: backoff_def)
qed

text \<open>
  Claim C8. With a usable API key, after \<open>n\<close> attempts that failed with rate-limit or quota
  errors (\<open>n\<close> at most \<open>maxRetries\<close>) the wrapper has waited \<open>initialDelay * 2 ^ i\<close> before
  attempt \<open>i + 1\<close> and makes attempt \<open>n\<close>. If that attempt returns, its value is the result.
  If it throws an auth error, the wrapper fails at once with the API-key error; if it
  throws a not-found or model error, at once with the model error; if it throws one more
  quota error and \<open>n = maxRetries\<close>, with the quota error; any other error is rethrown at
  once. No further attempt and no further wait follows in any of these cases. The classes
  are substring tests on the error message.
\<close>

theorem callWithRetry_policy:
  "valid (validateApiKey apiKey) \<and> retried fn n \<and> int n \<le> maxRetries \<longrightarrow>
     (let run = callWithRetry apiKey fn maxRetries initialDelay in
      (\<forall>v. fn n = Returns v \<longrightarrow>
         run = \<lparr>outcome = Inr v, waits = backoff initialDelay n, attempts = n + 1\<rparr>) \<and>
      (\<forall>e. fn n = Throws e \<and> isAuth (message_of e) \<longrightarrow>
         run = \<lparr>outcome = Inl api_key_error, waits = backoff initialDelay n, attempts = n + 1\<rparr>) \<and>
      (\<forall>e. fn n = Throws e \<and> \<not> isAuth (message_of e) \<and> isNotFound (message_of e) \<longrightarrow>
         run = \<lparr>outcome = Inl model_error, waits = backoff initialDelay n, attempts = n + 1\<rparr>) \<and>
      (\<forall>e. fn n = Throws e \<and> retryable e \<and> int n = maxRetries \<longrightarrow>
         run = \<lparr>outcome = Inl quota_exceeded, waits = backoff initialDelay n, attempts = n + 1\<rparr>) \<and>
      (\<forall>e. fn n = Throws e \<and> \<not> isAuth (message_of e) \<and> \<not> isNotFound (message_of e) \<and>
            \<not> isQuota (message_of e) \<longrightarrow>
         run = \<lparr>outcome = Inl e, waits = backoff initialDelay n, attempts = n + 1\<rparr>))"
proof (intro impI)
  assume a: "valid (validateApiKey apiKey) \<and> retried fn n \<and> int n \<le> maxRetries"
  then have r: "\<forall>j<n. \<exists>e. fn j = Throws e \<and> retryable e" and n: "int n \<le> maxRetries"
    by (simp_all add: retried_def)
  from loop_skip[OF r n, of initialDelay] obtain l where
    "callWithRetry_loop fn maxRetries initialDelay 0 Undefined [] =
     callWithRetry_loop fn maxRetries initialDelay n l (backoff initialDelay n)" ..
  with a have run: "callWithRetry apiKey fn maxRetries initialDelay =
     callWithRetry_loop fn maxRetries initialDelay n l (backoff initialDelay n)"
    by (simp add: callWithRetry_def)
  show "let run = callWithRetry apiKey fn maxRetries initialDelay in
      (\<forall>v. fn n = Returns v \<longrightarrow>
         run = \<lparr>outcome = Inr v, waits = backoff initialDelay n, attempts = n + 1\<rparr>) \<and>
      (\<forall>e. fn n = Throws e \<and> isAuth (message_of e) \<longrightarrow>
         run = \<lparr>outcome = Inl api_key_error, waits = backoff initialDelay n, attempts = n + 1\<rparr>) \<and>
      (\<forall>e. fn n = Throws e \<and> \<not> isAuth (message_of e) \<and> isNotFound (message_of e) \<longrightarrow>
         run = \<lparr>outcome = Inl model_error, waits = backoff initialDelay n, attempts = n + 1\<rparr>) \<and>
      (\<forall>e. fn n = Throws e \<and> retryable e \<and> int n = maxRetries \<longrightarrow>
         run = \<lparr>outcome = Inl quota_exceeded, waits = backoff initialDelay n, attempts = n + 1\<rparr>) \<and>
      (\<forall>e. fn n = Throws e \<and> \<not> isAuth (message_of e) \<and> \<not> isNotFound (message_of e) \<and>
            \<not> isQuota (message_of e) \<longrightarrow>
         run = \<lparr>outcome = Inl e, waits = backoff initialDelay n, attempts = n + 1\<rparr>)"
    unfolding Let_def run
      callWithRetry_loop.simps[of fn maxRetries initialDelay n l "backoff initialDelay n"]
    using n by (auto simp: retryable_def)
qed

theorem callWithRetry_policy_witness:
  "valid (validateApiKey (Some ''AIzaKey'')) \<and> retried limited_twice 2 \<and>
   callWithRetry (Some ''AIzaKey'') limited_twice 2 2000 =
     \<lparr>outcome = Inr 7, waits = [2000, 4000], attempts = 3\<rparr>"
proof -
  have k: "valid (validateApiKey (Some ''AIzaKey''))"
    by (simp add: validateApiKey_def)
  have q: "retryable (JsError (Some ''429 Too Many Requests''))"
    by (simp add: retryable_def message_of_def isQuota_def isAuth_def isNotFound_def)
  have r: "retried limited_twice 2"
    using q by (simp add: retried_def limited_twice_def)
  have v: "limited_twice 2 = Returns 7"
    by (simp add: limited_twice_def)
  have b: "backoff 2000 2 = [2000, 4000]"
    by (simp add: backoff_def numeral_2_eq_2)
  from callWithRetry_policy[of "Some ''AIzaKey''" limited_twice 2 2 2000] k r v b
  show ?thesis
    by (simp add: Let_def)
qed

section \<open>Teardown\<close>

lemma source_stop_nodes:
  "try_catch (source_stop x s) =
     s\<lparr>nodes := (if source_stop_throws s x then nodes s
                 else (nodes s)[x := (nodes s ! x)\<lparr>stopped := True\<rparr>])\<rparr>"
  by (simp add: source_stop_def try_catch_def)

lemma stop_sources_nodes:
  "\<exists>ns. stop_sources xs s = s\<lparr>nodes := ns\<rparr> \<and> length ns = length (nodes s) \<and>
     (\<forall>i<length ns. (stopped (nodes s ! i) \<longrightarrow> stopped (ns ! i)) \<and>
        (i \<in> set xs \<and> \<not> source_stop_throws s i \<longrightarrow> stopped (ns ! i)) \<and>
        node_buffer (ns ! i) = node_buffer (nodes s ! i) \<and>
        start_time (ns ! i) = start_time (nodes s ! i) \<and>
        node_context (ns ! i) = node_context (nodes s ! i))"
proof (induction xs arbitrary: s)
  case Nil
  show ?case by (rule exI[of _ "nodes s"]) simp
next
  case (Cons x xs)
  let ?s = "try_catch (source_stop x s)"
  from Cons.IH[of ?s] obtain ns where
    ns: "stop_sources xs ?s = ?s\<lparr>nodes := ns\<rparr>" "length ns = length (nodes ?s)"
    and el: "\<forall>i<length ns. (stopped (nodes ?s ! i) \<longrightarrow> stopped (ns ! i)) \<and>
        (i \<in> set xs \<and> \<not> source_stop_throws ?s i \<longrightarrow> stopped (ns ! i)) \<and>
        node_buffer (ns ! i) = node_buffer (nodes ?s ! i) \<and>
        start_time (ns ! i) = start_time (nodes ?s ! i) \<and>
        node_context (ns ! i) = node_context (nodes ?s ! i)"
    by blast
  have "stop_sources (x # xs) s = s\<lparr>nodes := ns\<rparr>"
    using ns(1) by (simp add: source_stop_nodes)
  moreover have "length ns = length (nodes s)"
    using ns(2) by (simp add: source_stop_nodes split: if_splits)
  moreover have "\<forall>i<length ns. (stopped (nodes s ! i) \<longrightarrow> stopped (ns ! i)) \<and>
        (i \<in> set (x # xs) \<and> \<not> source_stop_throws s i \<longrightarrow> stopped (ns ! i)) \<and>
        node_buffer (ns ! i) = node_buffer (nodes s ! i) \<and>
        start_time (ns ! i) = start_time (nodes s ! i) \<and>
        node_context (ns ! i) = node_context (nodes s ! i)"
  proof (intro allI impI)
    fix i assume i: "i < length ns"
    with el have e: "(stopped (nodes ?s ! i) \<longrightarrow> stopped (ns ! i)) \<and>
        (i \<in> set xs \<and> \<not> source_stop_throws ?s i \<longrightarrow> stopped (ns ! i)) \<and>
        node_buffer (ns ! i) = node_buffer (nodes ?s ! i) \<and>
        start_time (ns ! i) = start_time (nodes ?s ! i) \<and>
        node_context (ns ! i) = node_context (nodes ?s ! i)"
      by blast
    from i ns(2) have il: "i < length (nodes s)"
      by (simp add: source_stop_nodes split: if_splits)
    show "(stopped (nodes s ! i) \<longrightarrow> stopped (ns ! i)) \<and>
        (i \<in> set (x # xs) \<and> \<not> source_stop_throws s i \<longrightarrow> stopped (ns ! i)) \<and>
        node_buffer (ns ! i) = node_buffer (nodes s ! i) \<and>
        start_time (ns ! i) = start_time (nodes s ! i) \<and>
        node_context (ns ! i) = node_context (nodes s ! i)"
      using e il by (cases "i = x") (auto simp: source_stop_nodes split: if_splits)
  qed
  ultimately show ?case by blast
qed



lemma close_session_shape:
  "\<exists>ss. close_session s = s\<lparr>sessionRef := None, sessions := ss\<rparr> \<and>
     length ss = length (sessions s) \<and>
     (\<forall>k. sessionRef s = Some k \<and> k < length (sessions s) \<and> \<not> session_close_throws s k \<longrightarrow>
        connection (ss ! k) = Disconnected) \<and>
     (\<forall>j. sessionRef s \<noteq> Some j \<longrightarrow> ss ! j = sessions s ! j)"
proof -
  have "close_session s = s\<lparr>sessionRef := None, sessions := sessions (close_session s)\<rparr>"
    by (simp add: close_session_def session_close_def try_catch_def split: option.splits)
  moreover have "length (sessions (close_session s)) = length (sessions s)"
    by (simp add: close_session_def session_close_def try_catch_def split: option.splits)
  moreover have "\<forall>k. sessionRef s = Some k \<and> k < length (sessions s) \<and> \<not> session_close_throws s k \<longrightarrow>
        connection (sessions (close_session s) ! k) = Disconnected"
    by (simp add: close_session_def session_close_def try_catch_def)
  moreover have "\<forall>j. sessionRef s \<noteq> Some j \<longrightarrow> sessions (close_session s) ! j = sessions s ! j"
    by (auto simp: close_session_def session_close_def try_catch_def split: option.splits)
  ultimately show ?thesis by blast
qed

lemma stop_playback_shape:
  "\<exists>ns. stop_playback s = s\<lparr>sourcesRef := [], nextStartTimeRef := 0, nodes := ns\<rparr> \<and>
     length ns = length (nodes s) \<and>
     (\<forall>i<length ns. (stopped (nodes s ! i) \<longrightarrow> stopped (ns ! i)) \<and>
        (i \<in> set (sourcesRef s) \<and> \<not> source_stop_throws s i \<longrightarrow> stopped (ns ! i)) \<and>
        node_buffer (ns ! i) = node_buffer (nodes s ! i) \<and>
        start_time (ns ! i) = start_time (nodes s ! i) \<and>
        node_context (ns ! i) = node_context (nodes s ! i))"
proof -
  from stop_sources_nodes[of "sourcesRef s" s] obtain ns where
    ns: "stop_sources (sourcesRef s) s = s\<lparr>nodes := ns\<rparr>" "length ns = length (nodes s)"
    "\<forall>i<length ns. (stopped (nodes s ! i) \<longrightarrow> stopped (ns ! i)) \<and>
        (i \<in> set (sourcesRef s) \<and> \<not> source_stop_throws s i \<longrightarrow> stopped (ns ! i)) \<and>
        node_buffer (ns ! i) = node_buffer (nodes s ! i) \<and>
        start_time (ns ! i) = start_time (nodes s ! i) \<and>
        node_context (ns ! i) = node_context (nodes s ! i)"
    by blast
  have "stop_playback s = s\<lparr>sourcesRef := [], nextStartTimeRef := 0, nodes := ns\<rparr>"
    by (simp add: stop_playback_def ns(1))
  with ns(2,3) show ?thesis by blast
qed

lemma stop_microphone_shape:
  "stop_microphone s =
     Normal (s\<lparr>micStreamRef := None,
               streams := (case micStreamRef s of None \<Rightarrow> streams s | Some m \<Rightarrow> (streams s)[m := False])\<rparr>)"
  by (simp add: stop_microphone_def stop_tracks_def and_then_def split: option.splits)

lemma close_context_shape:
  "close_context ref s =
     s\<lparr>contexts := (case ref of None \<Rightarrow> contexts s
         | Some c \<Rightarrow> if context_close_throws s c then contexts s else (contexts s)[c := Closed])\<rparr>"
proof -
  have upd_closed: "\<And>xs c. c < length xs \<and> xs ! c = Closed \<Longrightarrow> xs[c := Closed] = xs"
    by (metis list_update_id)
  show ?thesis
    by (simp add: close_context_def context_is_closed_def context_close_def try_catch_def upd_closed
        split: option.splits)
qed

lemma stopSession_shape:
  "\<exists>ss ns st cs.
     stopSession s = Normal (s\<lparr>isActive := False, isValidating := False, sessionRef := None,
        sourcesRef := [], nextStartTimeRef := 0, micStreamRef := None,
        audioContextRef := None, outputAudioContextRef := None,
        sessions := ss, nodes := ns, streams := st, contexts := cs\<rparr>) \<and>
     (\<forall>k. sessionRef s = Some k \<and> k < length (sessions s) \<and> \<not> session_close_throws s k \<longrightarrow>
         connection (ss ! k) = Disconnected) \<and>
     (\<forall>x\<in>set (sourcesRef s). x < length (nodes s) \<and> \<not> source_stop_throws s x \<longrightarrow> stopped (ns ! x)) \<and>
     (\<forall>m. micStreamRef s = Some m \<and> m < length (streams s) \<longrightarrow> \<not> st ! m) \<and>
     (\<forall>c. (audioContextRef s = Some c \<or> outputAudioContextRef s = Some c) \<and>
         c < length (contexts s) \<and> \<not> context_close_throws s c \<longrightarrow> cs ! c = Closed) \<and>
     length ss = length (sessions s) \<and> (\<forall>j. sessionRef s \<noteq> Some j \<longrightarrow> ss ! j = sessions s ! j) \<and>
     length st = length (streams s) \<and> (\<forall>m. micStreamRef s \<noteq> Some m \<longrightarrow> st ! m = streams s ! m) \<and>
     length cs = length (contexts s) \<and>
     (\<forall>c. audioContextRef s \<noteq> Some c \<and> outputAudioContextRef s \<noteq> Some c \<longrightarrow> cs ! c = contexts s ! c)"
proof -
  let ?s1 = "s\<lparr>isActive := False, isValidating := False\<rparr>"
  from close_session_shape[of ?s1] obtain ss where
    s2: "close_session ?s1 = ?s1\<lparr>sessionRef := None, sessions := ss\<rparr>" and
    ss: "length ss = length (sessions s)"
      "\<forall>k. sessionRef s = Some k \<and> k < length (sessions s) \<and> \<not> session_close_throws s k \<longrightarrow>
         connection (ss ! k) = Disconnected"
      "\<forall>j. sessionRef s \<noteq> Some j \<longrightarrow> ss ! j = sessions s ! j"
    by auto
  let ?s2 = "?s1\<lparr>sessionRef := None, sessions := ss\<rparr>"
  from stop_playback_shape[of ?s2] obtain ns where
    s3: "stop_playback ?s2 = ?s2\<lparr>sourcesRef := [], nextStartTimeRef := 0, nodes := ns\<rparr>" and
    ns: "\<forall>x\<in>set (sourcesRef s). x < length (nodes s) \<and> \<not> source_stop_throws s x \<longrightarrow> stopped (ns ! x)"
    by auto
  define st where "st = (case micStreamRef s of None \<Rightarrow> streams s | Some m \<Rightarrow> (streams s)[m := False])"
  define c1 where "c1 = (case audioContextRef s of None \<Rightarrow> contexts s
      | Some c \<Rightarrow> if context_close_throws s c then contexts s else (contexts s)[c := Closed])"
  define cs where "cs = (case outputAudioContextRef s of None \<Rightarrow> c1
      | Some c \<Rightarrow> if context_close_throws s c then c1 else c1[c := Closed])"
  have shape: "stopSession s = Normal (s\<lparr>isActive := False, isValidating := False, sessionRef := None,
        sourcesRef := [], nextStartTimeRef := 0, micStreamRef := None,
        audioContextRef := None, outputAudioContextRef := None,
        sessions := ss, nodes := ns, streams := st, contexts := cs\<rparr>)"
    by (simp add: stopSession_def Let_def s2 s3 stop_microphone_shape close_context_shape and_then_def
        st_def cs_def c1_def split: option.splits)
  have stp: "(\<forall>m. micStreamRef s = Some m \<and> m < length (streams s) \<longrightarrow> \<not> st ! m) \<and>
      length st = length (streams s) \<and> (\<forall>m. micStreamRef s \<noteq> Some m \<longrightarrow> st ! m = streams s ! m)"
    by (auto simp: st_def split: option.splits)
  have l1: "length c1 = length (contexts s)"
    by (simp add: c1_def split: option.splits)
  have lc: "length cs = length (contexts s)"
    by (simp add: cs_def l1 split: option.splits)
  have other: "\<forall>c. audioContextRef s \<noteq> Some c \<and> outputAudioContextRef s \<noteq> Some c \<longrightarrow> cs ! c = contexts s ! c"
    by (auto simp: cs_def c1_def split: option.splits)
  have csp: "\<forall>c. (audioContextRef s = Some c \<or> outputAudioContextRef s = Some c) \<and>
         c < length (contexts s) \<and> \<not> context_close_throws s c \<longrightarrow> cs ! c = Closed"
  proof (intro allI impI)
    fix c
    assume a: "(audioContextRef s = Some c \<or> outputAudioContextRef s = Some c) \<and>
         c < length (contexts s) \<and> \<not> context_close_throws s c"
    have k1: "audioContextRef s = Some c \<Longrightarrow> c1 ! c = Closed"
      using a by (simp add: c1_def)
    have k2: "c1 ! c = Closed \<Longrightarrow> cs ! c = Closed"
      using a l1 by (cases "outputAudioContextRef s = Some c") (auto simp: cs_def split: option.splits)
    have k3: "outputAudioContextRef s = Some c \<Longrightarrow> cs ! c = Closed"
      using a l1 by (simp add: cs_def)
    from a k1 k2 k3 show "cs ! c = Closed" by blast
  qed
  from shape ss ns stp lc other csp show ?thesis by blast
qed




lemmas run_simps = run_def mounted_def startSession_def fulfil_def set_pc_def context_resume_def
  onopen_def stopSession_def close_session_def stop_playback_def stop_microphone_def
  close_context_def and_then_def try_catch_def state_of_def stop_tracks_def
  context_close_def context_is_closed_def session_close_def source_stop_def click_main_def
  toggleMute_def onaudioprocess_def reject_def catch_block_def disconnect_def Let_def
  open_contexts_def live_streams_def live_sessions_def Idle_def
  construction_throws_def mounted_on_def

section \<open>Inbound messages\<close>

lemmas message_simps = onmessage_def tool_calls_def transcriptions_def play_audio_def schedule_def
  interruption_def stop_playback_def base64Audio_def audioPart_def decodeAudioData_def
  duration_def is_save_def
  info_of_def tool_response_def

lemma function_calls_frame:
  "\<exists>sv sn. state_of (function_calls session fcs s) = s\<lparr>saved := sv, sent := sn\<rparr>"
proof (induction fcs arbitrary: s)
  case Nil
  show ?case
    by (rule exI[of _ "saved s"], rule exI[of _ "sent s"]) (simp add: state_of_def)
next
  case (Cons fc fcs)
  show ?case
  proof (cases "fc_name fc = Some ''save_important_info''")
    case False
    with Cons.IH[of s] show ?thesis by simp
  next
    case True
    show ?thesis
    proof (cases "fc_args fc")
      case None
      with True show ?thesis
        by (intro exI[of _ "saved s"] exI[of _ "sent s"]) (simp add: state_of_def)
    next
      case (Some info)
      let ?s = "s\<lparr>saved := saved s @ [info],
        sent := sent s @ [(session, ToolResponse (fc_id fc) (fc_name fc) acknowledgement)]\<rparr>"
      from Cons.IH[of ?s] obtain sv sn where
        "state_of (function_calls session fcs ?s) = ?s\<lparr>saved := sv, sent := sn\<rparr>"
        by blast
      with True Some show ?thesis
        by (intro exI[of _ sv] exI[of _ sn]) simp
    qed
  qed
qed

lemma tool_calls_frame:
  "\<exists>sv sn. state_of (tool_calls session m s) = s\<lparr>saved := sv, sent := sn\<rparr>"
proof (cases "toolCall m")
  case None
  then show ?thesis
    by (intro exI[of _ "saved s"] exI[of _ "sent s"]) (simp add: tool_calls_def state_of_def)
next
  case (Some a)
  show ?thesis
  proof (cases a)
    case None
    with Some show ?thesis
      by (intro exI[of _ "saved s"] exI[of _ "sent s"]) (simp add: tool_calls_def state_of_def)
  next
    case (Some fcs)
    with \<open>toolCall m = Some a\<close> function_calls_frame[of session fcs s] show ?thesis
      by (simp add: tool_calls_def)
  qed
qed

lemma function_calls_answered:
  "\<forall>fc\<in>set fcs. is_save fc \<longrightarrow> fc_args fc \<noteq> None \<Longrightarrow>
   function_calls session fcs s =
     Normal (s\<lparr>saved := saved s @ map info_of (filter is_save fcs),
               sent := sent s @ map (tool_response session) (filter is_save fcs)\<rparr>)"
proof (induction fcs arbitrary: s)
  case Nil
  show ?case by simp
next
  case (Cons fc fcs)
  then have rest: "\<forall>fc\<in>set fcs. is_save fc \<longrightarrow> fc_args fc \<noteq> None"
    by simp
  show ?case
  proof (cases "is_save fc")
    case False
    with Cons.IH[OF rest, of s] show ?thesis
      by (simp add: is_save_def)
  next
    case True
    with Cons.prems obtain info where info: "fc_args fc = Some info"
      by auto
    with True Cons.IH[OF rest] show ?thesis
      by (simp add: is_save_def info_of_def tool_response_def)
  qed
qed

lemma transcriptions_frame:
  "\<exists>u a. transcriptions m s = s\<lparr>userInput := u, aiOutput := a\<rparr>"
proof -
  have "transcriptions m s = s\<lparr>userInput := userInput (transcriptions m s),
      aiOutput := aiOutput (transcriptions m s)\<rparr>"
    by (simp add: transcriptions_def Let_def split: option.splits)
  then show ?thesis by blast
qed

lemma context_resume_frame: "\<exists>cs. context_resume c s = s\<lparr>contexts := cs\<rparr>"
proof -
  have "context_resume c s = s\<lparr>contexts := contexts (context_resume c s)\<rparr>"
    by (simp add: context_resume_def)
  then show ?thesis by blast
qed

lemma play_audio_chunk:
  assumes "chunk_of m = Some b" "outputAudioContextRef s = Some ctx"
  shows "play_audio m now s = Normal (schedule ctx b now (context_resume ctx s))"
  using assms
  by (auto simp: chunk_of_def play_audio_def Let_def split: option.splits sum.splits if_splits)

lemma play_audio_cases:
  "play_audio m now s = Normal s \<or>
   (\<exists>e ctx. play_audio m now s = Abrupt e (context_resume ctx s)) \<or>
   (\<exists>b ctx b64 decoded. play_audio m now s = Normal (schedule ctx b now (context_resume ctx s)) \<and>
      base64Audio m = Some b64 \<and> decodeBase64 b64 = Inr decoded \<and> pcm b = decoded \<and>
      outputAudioContextRef s = Some ctx)"
  by (auto simp: play_audio_def Let_def decodeAudioData_def split: option.splits sum.splits)


lemma onmessage_Normal:
  "onmessage session m now s = Normal s' \<longleftrightarrow>
   (\<exists>s1 s2. tool_calls session m s = Normal s1 \<and>
      play_audio m now (transcriptions m s1) = Normal s2 \<and> s' = interruption m s2)"
  by (auto simp: onmessage_def and_then_def split: completion.splits)

lemma tool_calls_Normal_frame:
  assumes "tool_calls session m s = Normal s1"
  shows "\<exists>sv sn. s1 = s\<lparr>saved := sv, sent := sn\<rparr>"
  using tool_calls_frame[of session m s] assms by (simp add: state_of_def)

lemma interruption_frame:
  "\<exists>ns. interruption m s =
     s\<lparr>nodes := ns,
       sourcesRef := (if interrupted m then [] else sourcesRef s),
       nextStartTimeRef := (if interrupted m then 0 else nextStartTimeRef s)\<rparr> \<and>
     length ns = length (nodes s) \<and>
     (\<forall>i<length ns.
        (interrupted m \<and> i \<in> set (sourcesRef s) \<and> \<not> source_stop_throws s i \<longrightarrow> stopped (ns ! i)) \<and>
        node_buffer (ns ! i) = node_buffer (nodes s ! i) \<and>
        start_time (ns ! i) = start_time (nodes s ! i))"
proof (cases "interrupted m")
  case False
  then show ?thesis
    by (intro exI[of _ "nodes s"]) (simp add: interruption_def)
next
  case True
  from stop_playback_shape[of s] obtain ns where
    "stop_playback s = s\<lparr>sourcesRef := [], nextStartTimeRef := 0, nodes := ns\<rparr>"
    "length ns = length (nodes s)"
    "\<forall>i<length ns. (stopped (nodes s ! i) \<longrightarrow> stopped (ns ! i)) \<and>
        (i \<in> set (sourcesRef s) \<and> \<not> source_stop_throws s i \<longrightarrow> stopped (ns ! i)) \<and>
        node_buffer (ns ! i) = node_buffer (nodes s ! i) \<and>
        start_time (ns ! i) = start_time (nodes s ! i) \<and>
        node_context (ns ! i) = node_context (nodes s ! i)"
    by blast
  with True show ?thesis
    by (intro exI[of _ ns]) (simp add: interruption_def)
qed

lemma after_tool_calls_log:
  "saved (state_of (and_then (play_audio m now (transcriptions m s1)) (\<lambda>s2. Normal (interruption m s2)))) = saved s1 \<and>
   sent (state_of (and_then (play_audio m now (transcriptions m s1)) (\<lambda>s2. Normal (interruption m s2)))) = sent s1"
proof -
  obtain u a where t: "transcriptions m s1 = s1\<lparr>userInput := u, aiOutput := a\<rparr>"
    using transcriptions_frame by blast
  let ?t = "transcriptions m s1"
  have i: "\<And>x. saved (interruption m x) = saved x \<and> sent (interruption m x) = sent x"
  proof -
    fix x
    from interruption_frame[of m x] obtain ns where
      "interruption m x = x\<lparr>nodes := ns,
        sourcesRef := (if interrupted m then [] else sourcesRef x),
        nextStartTimeRef := (if interrupted m then 0 else nextStartTimeRef x)\<rparr>"
      by blast
    then show "saved (interruption m x) = saved x \<and> sent (interruption m x) = sent x"
      by simp
  qed
  have r: "\<And>c x. saved (context_resume c x) = saved x \<and> sent (context_resume c x) = sent x"
    by (simp add: context_resume_def)
  have sc: "\<And>c b x. saved (schedule c b now x) = saved x \<and> sent (schedule c b now x) = sent x"
    by (simp add: schedule_def Let_def)
  from play_audio_cases[of m now ?t] show ?thesis
    by (auto simp: and_then_def state_of_def i r sc t)
qed

text \<open>
  Claim C7. For a tool-call event with \<open>K\<close> \<^verbatim>\<open>save_important_info\<close> calls (each with its
  \<^verbatim>\<open>args\<close>), the memory callback is invoked exactly \<open>K\<close> times, once per call with that
  call's \<^verbatim>\<open>info\<close>, and exactly \<open>K\<close> tool responses are sent, one per call with that call's
  id and the fixed acknowledgement, both in the order of the calls in the event; calls of
  other names are neither saved nor answered.
\<close>

theorem tool_calls_answered_in_order:
  "toolCall m = Some (Some fcs) \<and> (\<forall>fc\<in>set fcs. is_save fc \<longrightarrow> fc_args fc \<noteq> None) \<and>
   length (filter is_save fcs) = K \<longrightarrow>
     saved (state_of (onmessage session m now s)) = saved s @ map info_of (filter is_save fcs) \<and>
     sent (state_of (onmessage session m now s)) =
       sent s @ map (tool_response session) (filter is_save fcs) \<and>
     length (saved (state_of (onmessage session m now s))) = length (saved s) + K \<and>
     length (sent (state_of (onmessage session m now s))) = length (sent s) + K"
proof (intro impI)
  assume a: "toolCall m = Some (Some fcs) \<and> (\<forall>fc\<in>set fcs. is_save fc \<longrightarrow> fc_args fc \<noteq> None) \<and>
   length (filter is_save fcs) = K"
  let ?s1 = "s\<lparr>saved := saved s @ map info_of (filter is_save fcs),
               sent := sent s @ map (tool_response session) (filter is_save fcs)\<rparr>"
  from a have "tool_calls session m s = Normal ?s1"
    by (simp add: tool_calls_def function_calls_answered)
  then have "onmessage session m now s =
      and_then (play_audio m now (transcriptions m ?s1)) (\<lambda>s2. Normal (interruption m s2))"
    by (simp add: onmessage_def and_then_def)
  with after_tool_calls_log[of m now ?s1] a
  show "saved (state_of (onmessage session m now s)) = saved s @ map info_of (filter is_save fcs) \<and>
     sent (state_of (onmessage session m now s)) =
       sent s @ map (tool_response session) (filter is_save fcs) \<and>
     length (saved (state_of (onmessage session m now s))) = length (saved s) + K \<and>
     length (sent (state_of (onmessage session m now s))) = length (sent s) + K"
    by simp
qed

text \<open>
  Claim C6. When a message with the interruption flag is processed, whatever the number
  of pending sources, \<^verbatim>\<open>stop()\<close> is called on every pending source (it is stopped unless
  that call throws), the set of pending sources is left empty and \<^verbatim>\<open>nextStartTimeRef\<close> is
  zero. A message that carries only the interruption flag is always processed to the
  end.
\<close>

theorem interruption_clears_playback:
  "(interrupted m \<and> onmessage session m now s = Normal s' \<longrightarrow>
      sourcesRef s' = [] \<and> nextStartTimeRef s' = 0 \<and>
      (\<forall>x\<in>set (sourcesRef s). x < length (nodes s) \<and> \<not> source_stop_throws s x \<longrightarrow>
         stopped (nodes s' ! x))) \<and>
   (interrupted m \<and> toolCall m = None \<and> parts m = None \<longrightarrow>
      (\<exists>s'. onmessage session m now s = Normal s'))"
proof (intro conjI impI)
  assume a: "interrupted m \<and> onmessage session m now s = Normal s'"
  then obtain s1 s2 where
    s1: "tool_calls session m s = Normal s1" and
    s2: "play_audio m now (transcriptions m s1) = Normal s2" and
    s': "s' = interruption m s2"
    by (auto simp: onmessage_Normal)
  from tool_calls_Normal_frame[OF s1] obtain sv sn where f1: "s1 = s\<lparr>saved := sv, sent := sn\<rparr>"
    by blast
  obtain u b where t: "transcriptions m s1 = s1\<lparr>userInput := u, aiOutput := b\<rparr>"
    using transcriptions_frame by blast
  let ?t = "transcriptions m s1"
  have t': "?t = s\<lparr>saved := sv, sent := sn, userInput := u, aiOutput := b\<rparr>"
    using t f1 by simp
  have keep: "set (sourcesRef s) \<subseteq> set (sourcesRef s2) \<and> source_stop_throws s2 = source_stop_throws s \<and>
      length (nodes s) \<le> length (nodes s2)"
    using play_audio_cases[of m now ?t] s2 unfolding t'
    by (auto simp: schedule_def Let_def context_resume_def)
  from interruption_frame[of m s2] a obtain ns where
    ns: "interruption m s2 = s2\<lparr>nodes := ns, sourcesRef := [], nextStartTimeRef := 0\<rparr>"
      "length ns = length (nodes s2)"
      "\<forall>i<length ns. (i \<in> set (sourcesRef s2) \<and> \<not> source_stop_throws s2 i \<longrightarrow> stopped (ns ! i))"
    by auto
  show "sourcesRef s' = []" by (simp add: s' ns(1))
  show "nextStartTimeRef s' = 0" by (simp add: s' ns(1))
  show "\<forall>x\<in>set (sourcesRef s). x < length (nodes s) \<and> \<not> source_stop_throws s x \<longrightarrow>
         stopped (nodes s' ! x)"
    using keep ns(2,3) by (auto simp: s' ns(1))
next
  assume "interrupted m \<and> toolCall m = None \<and> parts m = None"
  then show "\<exists>s'. onmessage session m now s = Normal s'"
    by (simp add: onmessage_def and_then_def tool_calls_def play_audio_def base64Audio_def audioPart_def)
qed


lemma onmessage_chunk:
  assumes "onmessage session m now s = Normal s'" "chunk_of m = Some b"
    "outputAudioContextRef s = Some ctx" "\<not> interrupted m"
  shows "nodes s' = nodes s @
      [\<lparr>node_buffer = b, node_context = ctx, start_time = max (nextStartTimeRef s) now, stopped = False\<rparr>] \<and>
    nextStartTimeRef s' = max (nextStartTimeRef s) now + duration b \<and>
    sourcesRef s' = sourcesRef s @ [length (nodes s)] \<and>
    outputAudioContextRef s' = Some ctx"
proof -
  from assms(1) obtain s1 s2 where
    s1: "tool_calls session m s = Normal s1" and
    s2: "play_audio m now (transcriptions m s1) = Normal s2" and
    s': "s' = interruption m s2"
    by (auto simp: onmessage_Normal)
  from tool_calls_Normal_frame[OF s1] obtain sv sn where f1: "s1 = s\<lparr>saved := sv, sent := sn\<rparr>"
    by blast
  obtain u a where t: "transcriptions m s1 = s1\<lparr>userInput := u, aiOutput := a\<rparr>"
    using transcriptions_frame by blast
  have t': "transcriptions m s1 = s\<lparr>saved := sv, sent := sn, userInput := u, aiOutput := a\<rparr>"
    using t f1 by simp
  have "outputAudioContextRef (transcriptions m s1) = Some ctx"
    using assms(3) by (simp add: t')
  from play_audio_chunk[OF assms(2) this, of now] s2
  have "s2 = schedule ctx b now (context_resume ctx (transcriptions m s1))"
    by simp
  then have "s' = schedule ctx b now (context_resume ctx (transcriptions m s1))"
    using s' assms(4) by (simp add: interruption_def)
  then show ?thesis
    using assms(3) unfolding t' by (simp add: schedule_def Let_def context_resume_def)
qed

text \<open>
  Claim C5. Every audio chunk that is scheduled starts at
  \<open>max nextStartTimeRef currentTime\<close>, and \<^verbatim>\<open>nextStartTimeRef\<close> then is that start plus the
  chunk's duration. So for two chunks handled one after the other with no interruption,
  the second starts no earlier than the first start plus the first duration. A chunk of
  0.5 s at time 0 followed by a chunk of 0.3 s at time 0.1 are scheduled at 0 and 0.5, and
  \<^verbatim>\<open>nextStartTimeRef\<close> ends at 0.8.
\<close>

theorem chunks_play_back_to_back:
  "outputAudioContextRef s = Some ctx \<and>
   chunk_of m1 = Some b1 \<and> \<not> interrupted m1 \<and> onmessage session m1 t1 s = Normal s1 \<and>
   chunk_of m2 = Some b2 \<and> \<not> interrupted m2 \<and> onmessage session m2 t2 s1 = Normal s2 \<longrightarrow>
     start_time (nodes s2 ! length (nodes s)) = max (nextStartTimeRef s) t1 \<and>
     nextStartTimeRef s1 = start_time (nodes s2 ! length (nodes s)) + duration b1 \<and>
     start_time (nodes s2 ! (length (nodes s) + 1)) = max (nextStartTimeRef s1) t2 \<and>
     nextStartTimeRef s2 = start_time (nodes s2 ! (length (nodes s) + 1)) + duration b2 \<and>
     start_time (nodes s2 ! length (nodes s)) + duration b1
       \<le> start_time (nodes s2 ! (length (nodes s) + 1)) \<and>
     (nextStartTimeRef s = 0 \<and> t1 = 0 \<and> duration b1 = 0.5 \<and> t2 = 0.1 \<and> duration b2 = 0.3 \<longrightarrow>
        start_time (nodes s2 ! length (nodes s)) = 0 \<and>
        start_time (nodes s2 ! (length (nodes s) + 1)) = 0.5 \<and>
        nextStartTimeRef s2 = 0.8)"
proof (intro impI)
  assume a: "outputAudioContextRef s = Some ctx \<and>
   chunk_of m1 = Some b1 \<and> \<not> interrupted m1 \<and> onmessage session m1 t1 s = Normal s1 \<and>
   chunk_of m2 = Some b2 \<and> \<not> interrupted m2 \<and> onmessage session m2 t2 s1 = Normal s2"
  from a onmessage_chunk[of session m1 t1 s s1 b1 ctx] have
    n1: "nodes s1 = nodes s @
      [\<lparr>node_buffer = b1, node_context = ctx, start_time = max (nextStartTimeRef s) t1, stopped = False\<rparr>]" and
    x1: "nextStartTimeRef s1 = max (nextStartTimeRef s) t1 + duration b1" and
    c1: "outputAudioContextRef s1 = Some ctx"
    by simp_all
  from a c1 onmessage_chunk[of session m2 t2 s1 s2 b2 ctx] have
    n2: "nodes s2 = nodes s1 @
      [\<lparr>node_buffer = b2, node_context = ctx, start_time = max (nextStartTimeRef s1) t2, stopped = False\<rparr>]" and
    x2: "nextStartTimeRef s2 = max (nextStartTimeRef s1) t2 + duration b2"
    by simp_all
  have st1: "start_time (nodes s2 ! length (nodes s)) = max (nextStartTimeRef s) t1"
    by (simp add: n2 n1 nth_append)
  have st2: "start_time (nodes s2 ! (length (nodes s) + 1)) = max (nextStartTimeRef s1) t2"
    by (simp add: n2 n1 nth_append)
  show "start_time (nodes s2 ! length (nodes s)) = max (nextStartTimeRef s) t1 \<and>
     nextStartTimeRef s1 = start_time (nodes s2 ! length (nodes s)) + duration b1 \<and>
     start_time (nodes s2 ! (length (nodes s) + 1)) = max (nextStartTimeRef s1) t2 \<and>
     nextStartTimeRef s2 = start_time (nodes s2 ! (length (nodes s) + 1)) + duration b2 \<and>
     start_time (nodes s2 ! length (nodes s)) + duration b1
       \<le> start_time (nodes s2 ! (length (nodes s) + 1)) \<and>
     (nextStartTimeRef s = 0 \<and> t1 = 0 \<and> duration b1 = 0.5 \<and> t2 = 0.1 \<and> duration b2 = 0.3 \<longrightarrow>
        start_time (nodes s2 ! length (nodes s)) = 0 \<and>
        start_time (nodes s2 ! (length (nodes s) + 1)) = 0.5 \<and>
        nextStartTimeRef s2 = 0.8)"
    unfolding st1 st2 x2 x1 by auto
qed

lemma find_first:
  "\<forall>q\<in>set pre. \<not> P q \<Longrightarrow> P p \<Longrightarrow> find P (pre @ p # post) = Some p"
  by (induction pre) auto

lemma audioPart_first:
  assumes "parts m = Some (pre @ p # post)" "\<forall>q\<in>set pre. inlineData q = None" "inlineData p \<noteq> None"
  shows "audioPart m = Some p"
  using assms find_first[of pre "\<lambda>p. inlineData p \<noteq> None" p post]
  by (simp add: audioPart_def)

lemma onmessage_nodes:
  "length (nodes (state_of (onmessage session m now s))) = length (nodes s) \<or>
   (\<exists>b64 decoded. base64Audio m = Some b64 \<and> decodeBase64 b64 = Inr decoded \<and>
      length (nodes (state_of (onmessage session m now s))) = length (nodes s) + 1 \<and>
      pcm (node_buffer (nodes (state_of (onmessage session m now s)) ! length (nodes s))) = decoded)"
proof (cases "tool_calls session m s")
  case (Abrupt e s1)
  with tool_calls_frame[of session m s] obtain sv sn where "s1 = s\<lparr>saved := sv, sent := sn\<rparr>"
    by (auto simp: state_of_def)
  with Abrupt show ?thesis
    by (simp add: onmessage_def and_then_def state_of_def)
next
  case (Normal s1)
  from tool_calls_Normal_frame[OF Normal] obtain sv sn where f1: "s1 = s\<lparr>saved := sv, sent := sn\<rparr>"
    by blast
  obtain u a where t: "transcriptions m s1 = s1\<lparr>userInput := u, aiOutput := a\<rparr>"
    using transcriptions_frame by blast
  let ?t = "transcriptions m s1"
  have nt: "nodes ?t = nodes s"
    using t f1 by simp
  have om: "onmessage session m now s = and_then (play_audio m now ?t) (\<lambda>s2. Normal (interruption m s2))"
    using Normal by (simp add: onmessage_def and_then_def)
  have il: "\<And>x. length (nodes (interruption m x)) = length (nodes x)"
  proof -
    fix x
    from interruption_frame[of m x] obtain ns where
      "interruption m x = x\<lparr>nodes := ns,
        sourcesRef := (if interrupted m then [] else sourcesRef x),
        nextStartTimeRef := (if interrupted m then 0 else nextStartTimeRef x)\<rparr>"
      "length ns = length (nodes x)"
      by blast
    then show "length (nodes (interruption m x)) = length (nodes x)"
      by simp
  qed
  from play_audio_cases[of m now ?t] consider
    (same) "play_audio m now ?t = Normal ?t"
    | (thrown) e ctx where "play_audio m now ?t = Abrupt e (context_resume ctx ?t)"
    | (played) b ctx b64 decoded where
       "play_audio m now ?t = Normal (schedule ctx b now (context_resume ctx ?t))"
       "base64Audio m = Some b64" "decodeBase64 b64 = Inr decoded" "pcm b = decoded"
    by blast
  then show ?thesis
  proof cases
    case same
    then show ?thesis
      by (simp add: om and_then_def state_of_def il nt)
  next
    case thrown
    then show ?thesis
      by (simp add: om and_then_def state_of_def nt context_resume_def)
  next
    case played
    let ?p = "schedule ctx b now (context_resume ctx ?t)"
    have np: "nodes ?p = nodes s @
        [\<lparr>node_buffer = b, node_context = ctx,
          start_time = max (nextStartTimeRef (context_resume ctx ?t)) now, stopped = False\<rparr>]"
      by (simp add: schedule_def Let_def context_resume_def nt)
    from interruption_frame[of m ?p] obtain ns where
      ns: "nodes (interruption m ?p) = ns" "length ns = length (nodes ?p)"
        "\<forall>i<length ns. node_buffer (ns ! i) = node_buffer (nodes ?p ! i)"
      by auto
    have st: "state_of (onmessage session m now s) = interruption m ?p"
      by (simp add: om played(1) and_then_def state_of_def)
    have "length (nodes (state_of (onmessage session m now s))) = length (nodes s) + 1"
      by (simp add: st ns(1,2) np)
    moreover have "pcm (node_buffer (nodes (state_of (onmessage session m now s)) ! length (nodes s))) = decoded"
      using ns(3) by (simp add: st ns(1,2) np played(4))
    ultimately show ?thesis
      using played(2,3) by blast
  qed
qed

text \<open>
  Claim C10. When the parts of a message hold several parts with inline data, the
  handler behaves as if only the first of them were there: at most one source node is
  created, and when one is, its buffer is the decoding of the first such part. The parts
  after it are never decoded or scheduled.
\<close>

theorem only_first_audio_part_plays:
  "parts m = Some (pre @ p # post) \<and> (\<forall>q\<in>set pre. inlineData q = None) \<and> inlineData p \<noteq> None \<longrightarrow>
     onmessage session m now s = onmessage session (m\<lparr>parts := Some [p]\<rparr>) now s \<and>
     length (nodes (state_of (onmessage session m now s))) \<le> length (nodes s) + 1 \<and>
     (\<forall>s'. onmessage session m now s = Normal s' \<and> length (nodes s') = length (nodes s) + 1 \<longrightarrow>
        (\<exists>b64 decoded. inlineData p = Some (Some b64) \<and> decodeBase64 b64 = Inr decoded \<and>
           pcm (node_buffer (nodes s' ! length (nodes s))) = decoded))"
proof (intro impI)
  assume a: "parts m = Some (pre @ p # post) \<and> (\<forall>q\<in>set pre. inlineData q = None) \<and> inlineData p \<noteq> None"
  then have ap: "audioPart m = Some p"
    using audioPart_first by blast
  have ap': "audioPart (m\<lparr>parts := Some [p]\<rparr>) = Some p"
    using a by (simp add: audioPart_def)
  have b: "base64Audio (m\<lparr>parts := Some [p]\<rparr>) = base64Audio m"
    by (simp add: base64Audio_def ap ap')
  have same: "onmessage session m now s = onmessage session (m\<lparr>parts := Some [p]\<rparr>) now s"
    by (simp add: onmessage_def tool_calls_def transcriptions_def play_audio_def interruption_def b)
  have atmost: "length (nodes (state_of (onmessage session m now s))) \<le> length (nodes s) + 1"
    using onmessage_nodes[of session m now s] by auto
  have first: "\<forall>s'. onmessage session m now s = Normal s' \<and> length (nodes s') = length (nodes s) + 1 \<longrightarrow>
        (\<exists>b64 decoded. inlineData p = Some (Some b64) \<and> decodeBase64 b64 = Inr decoded \<and>
           pcm (node_buffer (nodes s' ! length (nodes s))) = decoded)"
  proof (intro allI impI)
    fix s'
    assume n: "onmessage session m now s = Normal s' \<and> length (nodes s') = length (nodes s) + 1"
    then have "state_of (onmessage session m now s) = s'"
      by (simp add: state_of_def)
    with onmessage_nodes[of session m now s] n obtain b64 decoded where
      "base64Audio m = Some b64" "decodeBase64 b64 = Inr decoded"
      "pcm (node_buffer (nodes s' ! length (nodes s))) = decoded"
      by auto
    moreover from this(1) ap have "inlineData p = Some (Some b64)"
      by (simp add: base64Audio_def split: option.splits)
    ultimately show "\<exists>b64 decoded. inlineData p = Some (Some b64) \<and> decodeBase64 b64 = Inr decoded \<and>
           pcm (node_buffer (nodes s' ! length (nodes s))) = decoded"
      by blast
  qed
  from same atmost first
  show "onmessage session m now s = onmessage session (m\<lparr>parts := Some [p]\<rparr>) now s \<and>
     length (nodes (state_of (onmessage session m now s))) \<le> length (nodes s) + 1 \<and>
     (\<forall>s'. onmessage session m now s = Normal s' \<and> length (nodes s') = length (nodes s) + 1 \<longrightarrow>
        (\<exists>b64 decoded. inlineData p = Some (Some b64) \<and> decodeBase64 b64 = Inr decoded \<and>
           pcm (node_buffer (nodes s' ! length (nodes s))) = decoded))"
    by blast
qed


section \<open>An invariant of disciplined runs\<close>










































lemma context_resume_fields:
  "starts (context_resume c s) = starts s" "sessions (context_resume c s) = sessions s"
  "streams (context_resume c s) = streams s" "isActive (context_resume c s) = isActive s"
  "sessionRef (context_resume c s) = sessionRef s" "micStreamRef (context_resume c s) = micStreamRef s"
  "audioContextRef (context_resume c s) = audioContextRef s"
  "outputAudioContextRef (context_resume c s) = outputAudioContextRef s"
  "length (contexts (context_resume c s)) = length (contexts s)"
  by (simp_all add: context_resume_def)



lemma fulfil_cases:
  assumes "k < length (starts s)"
  shows
    "pc (starts s ! k) = AwaitGetUserMedia \<Longrightarrow>
       fulfil k s =
         (set_pc k (AwaitResumeInput (length (streams s)) (length (contexts s)) (length (contexts s) + 1)) s)
           \<lparr>streams := streams s @ [True], micStreamRef := Some (length (streams s)),
            contexts := contexts s @ [Suspended, Suspended]\<rparr>"
    "pc (starts s ! k) = AwaitResumeInput stream i o' \<Longrightarrow>
       fulfil k s = context_resume i (set_pc k (AwaitResumeOutput stream i o') s)"
    "pc (starts s ! k) = AwaitResumeOutput stream i o' \<Longrightarrow>
       fulfil k s =
         (set_pc k (AwaitSessionPromise (length (sessions s))) (context_resume o' s))
           \<lparr>audioContextRef := Some i, outputAudioContextRef := Some o',
            sessions := sessions s @
              [\<lparr>connection = Connecting, closure_isMuted = render_isMuted (starts s ! k),
                closure_stream = stream, closure_inputCtx = i, capturing = False\<rparr>]\<rparr>"
    "pc (starts s ! k) = AwaitSessionPromise session \<Longrightarrow> session < length (sessions s) \<Longrightarrow>
     connection (sessions s ! session) = Connecting \<Longrightarrow>
       fulfil k s =
         (set_pc k Returned
            (onopen session
               (s\<lparr>sessions := (sessions s)[session := (sessions s ! session)\<lparr>connection := Opened\<rparr>]\<rparr>)))
           \<lparr>sessionRef := Some session\<rparr>"
  using assms by (simp_all add: fulfil_def Let_def context_resume_fields)

















section \<open>Teardown: what it releases\<close>


text \<open>
  What else survives the final teardown: the objects of the first of two overlapping
  starts, the stream of a start that failed after its microphone was granted, and what
  is held when the close calls throw.
\<close>

lemma leaks_survive_teardown:
  "live_sessions (run (hang_up_then_restart @ [Stop]) (mounted (Some ''key''))) = 1"
  "live_streams (run (hang_up_then_restart @ [Stop]) (mounted (Some ''key''))) = 1"
  "open_contexts (run (hang_up_then_restart @ [Stop]) (mounted (Some ''key''))) = 2"
  "live_streams (run (retry_after_throw @ [Stop]) (mounted (Some ''key''))) = 1"
  "live_sessions (run (one_session @ [Stop])
     (mounted_on (Some ''key'') (\<lambda>k. True) (\<lambda>k. False) (\<lambda>k. True))) = 1"
  "open_contexts (run (one_session @ [Stop])
     (mounted_on (Some ''key'') (\<lambda>k. True) (\<lambda>k. False) (\<lambda>k. True))) = 2"
  by (simp_all add: hang_up_then_restart_def retry_after_throw_def one_session_def run_simps)



section \<open>Start, stop and the handshake\<close>

lemma fulfil_Returned:
  "k < length (starts s) \<longrightarrow> pc (starts s ! k) = Returned \<Longrightarrow> fulfil k s = s"
  by (auto simp: fulfil_def)

lemma fulfil_handshake:
  assumes "k < length (starts x)" "pc (starts x ! k) = AwaitSessionPromise session"
    "session < length (sessions x)" "connection (sessions x ! session) = Connecting"
  shows "isActive (fulfil k x)" "sessionRef (fulfil k x) = Some session"
    "contexts (fulfil k x) = contexts x" "streams (fulfil k x) = streams x"
    "micStreamRef (fulfil k x) = micStreamRef x"
    "audioContextRef (fulfil k x) = audioContextRef x"
    "outputAudioContextRef (fulfil k x) = outputAudioContextRef x"
    "fulfil k (fulfil k x) = fulfil k x"
proof -
  note e = fulfil_cases(4)[OF assms]
  show "isActive (fulfil k x)" "sessionRef (fulfil k x) = Some session"
    "contexts (fulfil k x) = contexts x" "streams (fulfil k x) = streams x"
    "micStreamRef (fulfil k x) = micStreamRef x"
    "audioContextRef (fulfil k x) = audioContextRef x"
    "outputAudioContextRef (fulfil k x) = outputAudioContextRef x"
    by (simp_all add: e set_pc_def onopen_def)
  have "pc (starts (fulfil k x) ! k) = Returned"
    using assms(1) by (simp add: e set_pc_def onopen_def)
  then show "fulfil k (fulfil k x) = fulfil k x"
    by (intro fulfil_Returned) simp
qed

lemma fulfil_resume_output:
  assumes "k < length (starts x)" "pc (starts x ! k) = AwaitResumeOutput stream i o'"
  shows "k < length (starts (fulfil k x))"
    "pc (starts (fulfil k x) ! k) = AwaitSessionPromise (length (sessions x))"
    "length (sessions x) < length (sessions (fulfil k x))"
    "connection (sessions (fulfil k x) ! length (sessions x)) = Connecting"
    "audioContextRef (fulfil k x) = Some i" "outputAudioContextRef (fulfil k x) = Some o'"
    "contexts (fulfil k x) = contexts (context_resume o' x)"
    "streams (fulfil k x) = streams x" "micStreamRef (fulfil k x) = micStreamRef x"
  using assms(1)
  by (simp_all add: fulfil_cases(3)[OF assms] set_pc_def context_resume_fields)

lemma fulfil_resume_input:
  assumes "k < length (starts x)" "pc (starts x ! k) = AwaitResumeInput stream i o'"
  shows "k < length (starts (fulfil k x))"
    "pc (starts (fulfil k x) ! k) = AwaitResumeOutput stream i o'"
    "sessions (fulfil k x) = sessions x"
    "contexts (fulfil k x) = contexts (context_resume i x)"
    "streams (fulfil k x) = streams x" "micStreamRef (fulfil k x) = micStreamRef x"
  using assms(1)
  by (simp_all add: fulfil_cases(2)[OF assms] set_pc_def context_resume_def)

lemma fulfil_asking:
  assumes "k < length (starts x)" "pc (starts x ! k) = AwaitGetUserMedia"
  shows "k < length (starts (fulfil k x))"
    "pc (starts (fulfil k x) ! k) =
       AwaitResumeInput (length (streams x)) (length (contexts x)) (length (contexts x) + 1)"
    "sessions (fulfil k x) = sessions x"
    "contexts (fulfil k x) = contexts x @ [Suspended, Suspended]"
    "streams (fulfil k x) = streams x @ [True]"
    "micStreamRef (fulfil k x) = Some (length (streams x))"
  using assms(1)
  by (simp_all add: fulfil_cases(1)[OF assms] set_pc_def)

lemma context_resume_open:
  "length (contexts (context_resume c x)) = length (contexts x)"
  "d < length (contexts x) \<Longrightarrow> contexts x ! d \<noteq> Closed \<Longrightarrow> contexts (context_resume c x) ! d \<noteq> Closed"
  by (auto simp: context_resume_def nth_list_update)

lemma fulfil_all_from_output:
  assumes "k < length (starts x)" "pc (starts x ! k) = AwaitResumeOutput stream i o'"
  shows "isActive (fulfil k (fulfil k x))"
    "sessionRef (fulfil k (fulfil k x)) = Some (length (sessions x))"
    "audioContextRef (fulfil k (fulfil k x)) = Some i"
    "outputAudioContextRef (fulfil k (fulfil k x)) = Some o'"
    "contexts (fulfil k (fulfil k x)) = contexts (context_resume o' x)"
    "streams (fulfil k (fulfil k x)) = streams x"
    "micStreamRef (fulfil k (fulfil k x)) = micStreamRef x"
    "fulfil k (fulfil k (fulfil k x)) = fulfil k (fulfil k x)"
  using fulfil_handshake[OF fulfil_resume_output(1,2,3,4)[OF assms]] fulfil_resume_output(5-9)[OF assms]
  by simp_all

lemma fulfil_all_from_input:
  assumes "k < length (starts x)" "pc (starts x ! k) = AwaitResumeInput stream i o'"
  shows "isActive (fulfil k (fulfil k (fulfil k x)))"
    "sessionRef (fulfil k (fulfil k (fulfil k x))) = Some (length (sessions x))"
    "audioContextRef (fulfil k (fulfil k (fulfil k x))) = Some i"
    "outputAudioContextRef (fulfil k (fulfil k (fulfil k x))) = Some o'"
    "contexts (fulfil k (fulfil k (fulfil k x))) = contexts (context_resume o' (fulfil k x))"
    "streams (fulfil k (fulfil k (fulfil k x))) = streams x"
    "micStreamRef (fulfil k (fulfil k (fulfil k x))) = micStreamRef x"
    "fulfil k (fulfil k (fulfil k (fulfil k x))) = fulfil k (fulfil k (fulfil k x))"
  using fulfil_all_from_output[OF fulfil_resume_input(1,2)[OF assms]] fulfil_resume_input(3-6)[OF assms]
  by simp_all


lemma contexts_context_resume:
  "contexts (context_resume c y) =
     (if c < length (contexts y) \<and> contexts y ! c = Suspended then (contexts y)[c := Running]
      else contexts y)"
  by (simp add: context_resume_def)

lemma fulfil_all_asking:
  assumes "k < length (starts x)" "pc (starts x ! k) = AwaitGetUserMedia"
  shows "isActive (fulfil_all k x)" "sessionRef (fulfil_all k x) = Some (length (sessions x))"
    "micStreamRef (fulfil_all k x) = Some (length (streams x))"
    "streams (fulfil_all k x) = streams x @ [True]"
    "audioContextRef (fulfil_all k x) = Some (length (contexts x))"
    "outputAudioContextRef (fulfil_all k x) = Some (length (contexts x) + 1)"
    "contexts (fulfil_all k x) = contexts x @ [Running, Running]"
proof -
  note a = fulfil_asking[OF assms]
  note b = fulfil_all_from_input[OF a(1,2)]
  note c = fulfil_resume_input(4)[OF a(1,2)]
  show "isActive (fulfil_all k x)" "sessionRef (fulfil_all k x) = Some (length (sessions x))"
    "micStreamRef (fulfil_all k x) = Some (length (streams x))"
    "streams (fulfil_all k x) = streams x @ [True]"
    "audioContextRef (fulfil_all k x) = Some (length (contexts x))"
    "outputAudioContextRef (fulfil_all k x) = Some (length (contexts x) + 1)"
    using b(1,2,3,4,6,7) a(3,5,6) by (simp_all add: fulfil_all_def)
  have "contexts (fulfil k (fulfil k x)) = contexts x @ [Running, Suspended]"
    by (simp add: c contexts_context_resume a(4) nth_append list_update_append)
  then show "contexts (fulfil_all k x) = contexts x @ [Running, Running]"
    by (simp add: fulfil_all_def b(5) contexts_context_resume nth_append list_update_append)
qed

lemma fulfil_all_resuming:
  assumes "k < length (starts x)"
    "pc (starts x ! k) = AwaitResumeInput stream i o' \<or> pc (starts x ! k) = AwaitResumeOutput stream i o'"
  shows "isActive (fulfil_all k x)" "sessionRef (fulfil_all k x) = Some (length (sessions x))"
    "audioContextRef (fulfil_all k x) = Some i" "outputAudioContextRef (fulfil_all k x) = Some o'"
    "c < length (contexts x) \<Longrightarrow> contexts x ! c \<noteq> Closed \<Longrightarrow> contexts (fulfil_all k x) ! c \<noteq> Closed"
proof -
  have "isActive (fulfil_all k x) \<and> sessionRef (fulfil_all k x) = Some (length (sessions x)) \<and>
    audioContextRef (fulfil_all k x) = Some i \<and> outputAudioContextRef (fulfil_all k x) = Some o' \<and>
    (c < length (contexts x) \<longrightarrow> contexts x ! c \<noteq> Closed \<longrightarrow> contexts (fulfil_all k x) ! c \<noteq> Closed)"
    using assms(2)
  proof
    assume p: "pc (starts x ! k) = AwaitResumeInput stream i o'"
    note b = fulfil_all_from_input[OF assms(1) p]
    note d = fulfil_resume_input(4)[OF assms(1) p]
    have e: "fulfil_all k x = fulfil k (fulfil k (fulfil k x))"
      by (simp add: fulfil_all_def b(8))
    have "c < length (contexts x) \<longrightarrow> contexts x ! c \<noteq> Closed \<longrightarrow> contexts (fulfil_all k x) ! c \<noteq> Closed"
      using context_resume_open(2)[where c = i and x = x and d = c]
        context_resume_open(2)[where c = o' and x = "fulfil k x" and d = c]
      by (simp add: e b(5) d context_resume_open(1))
    with b(1-4) show ?thesis by (simp add: e)
  next
    assume p: "pc (starts x ! k) = AwaitResumeOutput stream i o'"
    note b = fulfil_all_from_output[OF assms(1) p]
    have e: "fulfil_all k x = fulfil k (fulfil k x)"
      by (simp add: fulfil_all_def b(8))
    have "c < length (contexts x) \<longrightarrow> contexts x ! c \<noteq> Closed \<longrightarrow> contexts (fulfil_all k x) ! c \<noteq> Closed"
      using context_resume_open(2)[where c = o' and x = x and d = c]
      by (simp add: e b(5))
    with b(1-4) show ?thesis by (simp add: e)
  qed
  then show "isActive (fulfil_all k x)" "sessionRef (fulfil_all k x) = Some (length (sessions x))"
    "audioContextRef (fulfil_all k x) = Some i" "outputAudioContextRef (fulfil_all k x) = Some o'"
    "c < length (contexts x) \<Longrightarrow> contexts x ! c \<noteq> Closed \<Longrightarrow> contexts (fulfil_all k x) ! c \<noteq> Closed"
    by simp_all
qed

lemma fulfil_all_connecting:
  assumes "k < length (starts x)" "pc (starts x ! k) = AwaitSessionPromise session"
    "session < length (sessions x)" "connection (sessions x ! session) = Connecting"
  shows "isActive (fulfil_all k x)" "sessionRef (fulfil_all k x) = Some session"
    "contexts (fulfil_all k x) = contexts x"
    "audioContextRef (fulfil_all k x) = audioContextRef x"
    "outputAudioContextRef (fulfil_all k x) = outputAudioContextRef x"
  using fulfil_handshake[OF assms] by (simp_all add: fulfil_all_def)

text \<open>
  Claim C1 as stated fails: when the handshake resolves after \<^verbatim>\<open>stopSession\<close>, \<^verbatim>\<open>onopen\<close>
  sets \<^verbatim>\<open>isActive\<close> and the session is stored in \<^verbatim>\<open>sessionRef\<close>.
\<close>

theorem late_handshake_counterexample:
  "\<not> (Idle (run handshake_after_stop (mounted (Some ''key''))) \<and>
      sessionRef (run handshake_after_stop (mounted (Some ''key''))) = None \<and>
      open_contexts (run handshake_after_stop (mounted (Some ''key''))) = 0)"
  by (simp add: handshake_after_stop_def run_simps)

text \<open>
  Claim C1, amended. If \<^verbatim>\<open>stopSession\<close> runs while a \<^verbatim>\<open>startSession\<close> call is in flight,
  at any of its awaits, the teardown itself leaves the component \<open>Idle\<close> with no session
  handle and null context refs, but the call is not cancelled: when the promises it still
  awaits are fulfilled it runs on, the component becomes active and keeps the session
  handle. After a stop during the request for the microphone, the call makes a live
  stream and two contexts, resumes them and stores them in the refs. After a stop during
  a \<^verbatim>\<open>resume()\<close>, the two contexts of the call, which the teardown did not close where no
  ref held them, stay open and are stored in the refs. After a stop during the handshake,
  the resolution opens no audio context: the context table is unchanged and both context
  refs stay null.
\<close>

theorem stop_does_not_cancel_start:
  "k < length (starts s) \<longrightarrow>
     Idle (state_of (stopSession s)) \<and>
     sessionRef (state_of (stopSession s)) = None \<and>
     audioContextRef (state_of (stopSession s)) = None \<and>
     outputAudioContextRef (state_of (stopSession s)) = None \<and>
     (pc (starts s ! k) = AwaitGetUserMedia \<longrightarrow>
        isActive (fulfil_all k (state_of (stopSession s))) \<and>
        sessionRef (fulfil_all k (state_of (stopSession s))) = Some (length (sessions s)) \<and>
        micStreamRef (fulfil_all k (state_of (stopSession s))) = Some (length (streams s)) \<and>
        streams (fulfil_all k (state_of (stopSession s))) =
          streams (state_of (stopSession s)) @ [True] \<and>
        audioContextRef (fulfil_all k (state_of (stopSession s))) = Some (length (contexts s)) \<and>
        outputAudioContextRef (fulfil_all k (state_of (stopSession s))) =
          Some (length (contexts s) + 1) \<and>
        contexts (fulfil_all k (state_of (stopSession s))) =
          contexts (state_of (stopSession s)) @ [Running, Running]) \<and>
     (pc (starts s ! k) = AwaitResumeInput stream i o' \<or>
      pc (starts s ! k) = AwaitResumeOutput stream i o' \<longrightarrow>
        isActive (fulfil_all k (state_of (stopSession s))) \<and>
        sessionRef (fulfil_all k (state_of (stopSession s))) = Some (length (sessions s)) \<and>
        audioContextRef (fulfil_all k (state_of (stopSession s))) = Some i \<and>
        outputAudioContextRef (fulfil_all k (state_of (stopSession s))) = Some o' \<and>
        (i < length (contexts s) \<and> contexts s ! i \<noteq> Closed \<and> i \<notin> held_contexts s \<longrightarrow>
           contexts (fulfil_all k (state_of (stopSession s))) ! i \<noteq> Closed) \<and>
        (o' < length (contexts s) \<and> contexts s ! o' \<noteq> Closed \<and> o' \<notin> held_contexts s \<longrightarrow>
           contexts (fulfil_all k (state_of (stopSession s))) ! o' \<noteq> Closed)) \<and>
     (pc (starts s ! k) = AwaitSessionPromise session \<and> session < length (sessions s) \<and>
      connection (sessions s ! session) = Connecting \<and> sessionRef s \<noteq> Some session \<longrightarrow>
        isActive (fulfil_all k (state_of (stopSession s))) \<and>
        sessionRef (fulfil_all k (state_of (stopSession s))) = Some session \<and>
        contexts (fulfil_all k (state_of (stopSession s))) = contexts (state_of (stopSession s)) \<and>
        audioContextRef (fulfil_all k (state_of (stopSession s))) = None \<and>
        outputAudioContextRef (fulfil_all k (state_of (stopSession s))) = None)"
proof
  assume k: "k < length (starts s)"
  let ?t = "state_of (stopSession s)"
  from stopSession_shape[of s] obtain ss ns st cs where
    sh: "stopSession s = Normal (s\<lparr>isActive := False, isValidating := False, sessionRef := None,
        sourcesRef := [], nextStartTimeRef := 0, micStreamRef := None,
        audioContextRef := None, outputAudioContextRef := None,
        sessions := ss, nodes := ns, streams := st, contexts := cs\<rparr>)" and
    oth: "length ss = length (sessions s)" "\<forall>j. sessionRef s \<noteq> Some j \<longrightarrow> ss ! j = sessions s ! j"
     "length st = length (streams s)"
     "length cs = length (contexts s)"
     "\<forall>c. audioContextRef s \<noteq> Some c \<and> outputAudioContextRef s \<noteq> Some c \<longrightarrow> cs ! c = contexts s ! c"
    by blast
  have t: "?t = s\<lparr>isActive := False, isValidating := False, sessionRef := None,
        sourcesRef := [], nextStartTimeRef := 0, micStreamRef := None,
        audioContextRef := None, outputAudioContextRef := None,
        sessions := ss, nodes := ns, streams := st, contexts := cs\<rparr>"
    by (simp add: sh state_of_def)
  have f: "starts ?t = starts s" "length (sessions ?t) = length (sessions s)"
    "length (streams ?t) = length (streams s)" "length (contexts ?t) = length (contexts s)"
    "Idle ?t" "sessionRef ?t = None" "audioContextRef ?t = None" "outputAudioContextRef ?t = None"
    using oth by (simp_all add: t Idle_def)
  have kt: "k < length (starts ?t)" using k f(1) by simp
  have open_kept: "\<And>c. c < length (contexts s) \<Longrightarrow> contexts s ! c \<noteq> Closed \<Longrightarrow>
      c \<notin> held_contexts s \<Longrightarrow> c < length (contexts ?t) \<and> contexts ?t ! c \<noteq> Closed"
    using oth(4,5) by (auto simp: t held_contexts_def)
  have asking: "pc (starts s ! k) = AwaitGetUserMedia \<longrightarrow>
        isActive (fulfil_all k ?t) \<and>
        sessionRef (fulfil_all k ?t) = Some (length (sessions s)) \<and>
        micStreamRef (fulfil_all k ?t) = Some (length (streams s)) \<and>
        streams (fulfil_all k ?t) = streams ?t @ [True] \<and>
        audioContextRef (fulfil_all k ?t) = Some (length (contexts s)) \<and>
        outputAudioContextRef (fulfil_all k ?t) = Some (length (contexts s) + 1) \<and>
        contexts (fulfil_all k ?t) = contexts ?t @ [Running, Running]"
  proof
    assume "pc (starts s ! k) = AwaitGetUserMedia"
    then have p: "pc (starts ?t ! k) = AwaitGetUserMedia" by (simp add: f(1))
    from fulfil_all_asking[OF kt p] show "isActive (fulfil_all k ?t) \<and>
        sessionRef (fulfil_all k ?t) = Some (length (sessions s)) \<and>
        micStreamRef (fulfil_all k ?t) = Some (length (streams s)) \<and>
        streams (fulfil_all k ?t) = streams ?t @ [True] \<and>
        audioContextRef (fulfil_all k ?t) = Some (length (contexts s)) \<and>
        outputAudioContextRef (fulfil_all k ?t) = Some (length (contexts s) + 1) \<and>
        contexts (fulfil_all k ?t) = contexts ?t @ [Running, Running]"
      by (simp add: f(2,3,4))
  qed
  have resuming: "pc (starts s ! k) = AwaitResumeInput stream i o' \<or>
      pc (starts s ! k) = AwaitResumeOutput stream i o' \<longrightarrow>
        isActive (fulfil_all k ?t) \<and>
        sessionRef (fulfil_all k ?t) = Some (length (sessions s)) \<and>
        audioContextRef (fulfil_all k ?t) = Some i \<and>
        outputAudioContextRef (fulfil_all k ?t) = Some o' \<and>
        (i < length (contexts s) \<and> contexts s ! i \<noteq> Closed \<and> i \<notin> held_contexts s \<longrightarrow>
           contexts (fulfil_all k ?t) ! i \<noteq> Closed) \<and>
        (o' < length (contexts s) \<and> contexts s ! o' \<noteq> Closed \<and> o' \<notin> held_contexts s \<longrightarrow>
           contexts (fulfil_all k ?t) ! o' \<noteq> Closed)"
  proof
    assume "pc (starts s ! k) = AwaitResumeInput stream i o' \<or>
      pc (starts s ! k) = AwaitResumeOutput stream i o'"
    then have p: "pc (starts ?t ! k) = AwaitResumeInput stream i o' \<or>
      pc (starts ?t ! k) = AwaitResumeOutput stream i o'" by (simp add: f(1))
    note r = fulfil_all_resuming[OF kt p]
    from r(1-4) r(5)[of i] r(5)[of o'] open_kept[of i] open_kept[of o']
    show "isActive (fulfil_all k ?t) \<and>
        sessionRef (fulfil_all k ?t) = Some (length (sessions s)) \<and>
        audioContextRef (fulfil_all k ?t) = Some i \<and>
        outputAudioContextRef (fulfil_all k ?t) = Some o' \<and>
        (i < length (contexts s) \<and> contexts s ! i \<noteq> Closed \<and> i \<notin> held_contexts s \<longrightarrow>
           contexts (fulfil_all k ?t) ! i \<noteq> Closed) \<and>
        (o' < length (contexts s) \<and> contexts s ! o' \<noteq> Closed \<and> o' \<notin> held_contexts s \<longrightarrow>
           contexts (fulfil_all k ?t) ! o' \<noteq> Closed)"
      by (auto simp: f(2))
  qed
  have connecting: "pc (starts s ! k) = AwaitSessionPromise session \<and> session < length (sessions s) \<and>
      connection (sessions s ! session) = Connecting \<and> sessionRef s \<noteq> Some session \<longrightarrow>
        isActive (fulfil_all k ?t) \<and>
        sessionRef (fulfil_all k ?t) = Some session \<and>
        contexts (fulfil_all k ?t) = contexts ?t \<and>
        audioContextRef (fulfil_all k ?t) = None \<and>
        outputAudioContextRef (fulfil_all k ?t) = None"
  proof
    assume a: "pc (starts s ! k) = AwaitSessionPromise session \<and> session < length (sessions s) \<and>
      connection (sessions s ! session) = Connecting \<and> sessionRef s \<noteq> Some session"
    then have p: "pc (starts ?t ! k) = AwaitSessionPromise session" "session < length (sessions ?t)"
      by (simp_all add: f(1,2))
    from a oth(2) have c: "connection (sessions ?t ! session) = Connecting"
      by (simp add: t)
    from fulfil_all_connecting[OF kt p c] f(7,8)
    show "isActive (fulfil_all k ?t) \<and>
        sessionRef (fulfil_all k ?t) = Some session \<and>
        contexts (fulfil_all k ?t) = contexts ?t \<and>
        audioContextRef (fulfil_all k ?t) = None \<and>
        outputAudioContextRef (fulfil_all k ?t) = None"
      by simp
  qed
  from f(5-8) asking resuming connecting
  show "Idle ?t \<and> sessionRef ?t = None \<and> audioContextRef ?t = None \<and> outputAudioContextRef ?t = None \<and>
     (pc (starts s ! k) = AwaitGetUserMedia \<longrightarrow>
        isActive (fulfil_all k ?t) \<and>
        sessionRef (fulfil_all k ?t) = Some (length (sessions s)) \<and>
        micStreamRef (fulfil_all k ?t) = Some (length (streams s)) \<and>
        streams (fulfil_all k ?t) = streams ?t @ [True] \<and>
        audioContextRef (fulfil_all k ?t) = Some (length (contexts s)) \<and>
        outputAudioContextRef (fulfil_all k ?t) = Some (length (contexts s) + 1) \<and>
        contexts (fulfil_all k ?t) = contexts ?t @ [Running, Running]) \<and>
     (pc (starts s ! k) = AwaitResumeInput stream i o' \<or>
      pc (starts s ! k) = AwaitResumeOutput stream i o' \<longrightarrow>
        isActive (fulfil_all k ?t) \<and>
        sessionRef (fulfil_all k ?t) = Some (length (sessions s)) \<and>
        audioContextRef (fulfil_all k ?t) = Some i \<and>
        outputAudioContextRef (fulfil_all k ?t) = Some o' \<and>
        (i < length (contexts s) \<and> contexts s ! i \<noteq> Closed \<and> i \<notin> held_contexts s \<longrightarrow>
           contexts (fulfil_all k ?t) ! i \<noteq> Closed) \<and>
        (o' < length (contexts s) \<and> contexts s ! o' \<noteq> Closed \<and> o' \<notin> held_contexts s \<longrightarrow>
           contexts (fulfil_all k ?t) ! o' \<noteq> Closed)) \<and>
     (pc (starts s ! k) = AwaitSessionPromise session \<and> session < length (sessions s) \<and>
      connection (sessions s ! session) = Connecting \<and> sessionRef s \<noteq> Some session \<longrightarrow>
        isActive (fulfil_all k ?t) \<and>
        sessionRef (fulfil_all k ?t) = Some session \<and>
        contexts (fulfil_all k ?t) = contexts ?t \<and>
        audioContextRef (fulfil_all k ?t) = None \<and>
        outputAudioContextRef (fulfil_all k ?t) = None)"
    by blast
qed

theorem stop_does_not_cancel_start_witness:
  "isActive (run grant_after_stop (mounted (Some ''key''))) \<and>
   sessionRef (run grant_after_stop (mounted (Some ''key''))) = Some 0 \<and>
   micStreamRef (run grant_after_stop (mounted (Some ''key''))) = Some 0 \<and>
   streams (run grant_after_stop (mounted (Some ''key''))) = [True] \<and>
   contexts (run grant_after_stop (mounted (Some ''key''))) = [Running, Running] \<and>
   isActive (run resume_after_stop (mounted (Some ''key''))) \<and>
   sessionRef (run resume_after_stop (mounted (Some ''key''))) = Some 0 \<and>
   audioContextRef (run resume_after_stop (mounted (Some ''key''))) = Some 0 \<and>
   outputAudioContextRef (run resume_after_stop (mounted (Some ''key''))) = Some 1 \<and>
   contexts (run resume_after_stop (mounted (Some ''key''))) ! 0 \<noteq> Closed \<and>
   contexts (run resume_after_stop (mounted (Some ''key''))) ! 1 \<noteq> Closed \<and>
   isActive (run handshake_after_stop (mounted (Some ''key''))) \<and>
   sessionRef (run handshake_after_stop (mounted (Some ''key''))) = Some 0 \<and>
   audioContextRef (run handshake_after_stop (mounted (Some ''key''))) = None \<and>
   open_contexts (run handshake_after_stop (mounted (Some ''key''))) = 0"
proof -
  let ?m = "mounted (Some ''key'')"
  let ?a = "run [Start] ?m"
  let ?r = "run [Start, Fulfil 0] ?m"
  let ?h = "run [Start, Fulfil 0, Fulfil 0, Fulfil 0] ?m"
  have ea: "run grant_after_stop ?m = fulfil_all 0 (state_of (stopSession ?a))"
    by (simp add: grant_after_stop_def run_def fulfil_all_def)
  have er: "run resume_after_stop ?m = fulfil_all 0 (state_of (stopSession ?r))"
    by (simp add: resume_after_stop_def fulfil_all_def run_simps)
  have eh: "run handshake_after_stop ?m = fulfil_all 0 (state_of (stopSession ?h))"
    by (simp add: handshake_after_stop_def fulfil_all_def run_simps)
  have ha: "0 < length (starts ?a) \<and> pc (starts ?a ! 0) = AwaitGetUserMedia \<and>
      sessions ?a = [] \<and> streams ?a = [] \<and> contexts ?a = [] \<and>
      streams (state_of (stopSession ?a)) = [] \<and> contexts (state_of (stopSession ?a)) = []"
    by (simp add: run_simps)
  have hr: "0 < length (starts ?r) \<and> pc (starts ?r ! 0) = AwaitResumeInput 0 0 1 \<and>
      sessions ?r = [] \<and> contexts ?r = [Suspended, Suspended] \<and> held_contexts ?r = {}"
    by (simp add: run_simps held_contexts_def)
  have hh: "0 < length (starts ?h) \<and> pc (starts ?h ! 0) = AwaitSessionPromise 0 \<and>
      0 < length (sessions ?h) \<and> connection (sessions ?h ! 0) = Connecting \<and> sessionRef ?h \<noteq> Some 0"
    by (simp add: run_simps)
  have oh: "open_contexts (run handshake_after_stop ?m) = 0"
    by (simp add: handshake_after_stop_def run_simps)
  from stop_does_not_cancel_start[of 0 ?a 0 0 1 0] ha
  have a: "isActive (run grant_after_stop ?m) \<and> sessionRef (run grant_after_stop ?m) = Some 0 \<and>
    micStreamRef (run grant_after_stop ?m) = Some 0 \<and> streams (run grant_after_stop ?m) = [True] \<and>
    contexts (run grant_after_stop ?m) = [Running, Running]"
    unfolding ea by simp
  from stop_does_not_cancel_start[of 0 ?r 0 0 1 0] hr
  have r: "isActive (run resume_after_stop ?m) \<and> sessionRef (run resume_after_stop ?m) = Some 0 \<and>
    audioContextRef (run resume_after_stop ?m) = Some 0 \<and>
    outputAudioContextRef (run resume_after_stop ?m) = Some 1 \<and>
    contexts (run resume_after_stop ?m) ! 0 \<noteq> Closed \<and>
    contexts (run resume_after_stop ?m) ! 1 \<noteq> Closed"
    unfolding er by simp
  from stop_does_not_cancel_start[of 0 ?h 0 0 1 0] hh
  have h: "isActive (run handshake_after_stop ?m) \<and> sessionRef (run handshake_after_stop ?m) = Some 0 \<and>
    audioContextRef (run handshake_after_stop ?m) = None"
    unfolding eh by simp
  from a r h oh show ?thesis by blast
qed


text \<open>
  Two more ways to more than one live session, which the amended claim has to exclude: a
  start that fails after its microphone was granted (the \<^verbatim>\<open>catch\<close> block releases
  nothing) followed by another start, and close calls that throw.
\<close>

lemma failure_after_grant_leaks:
  "live_streams (run retry_after_rejection (mounted (Some ''key''))) = 2"
  "open_contexts (run retry_after_rejection (mounted (Some ''key''))) = 4"
  "live_streams (run retry_after_throw (mounted (Some ''key''))) = 2"
  by (simp_all add: retry_after_rejection_def retry_after_throw_def run_simps)

lemma throwing_close_leaks:
  "live_sessions (run restart (mounted_on (Some ''key'') (\<lambda>k. True) (\<lambda>k. False) (\<lambda>k. True))) = 2"
  "open_contexts (run restart (mounted_on (Some ''key'') (\<lambda>k. True) (\<lambda>k. False) (\<lambda>k. True))) = 4"
  by (simp_all add: restart_def one_session_def run_simps)




section \<open>The mute flag\<close>

text \<open>
  Claim C3 fails on the code. \<^verbatim>\<open>onaudioprocess\<close> tests the \<^verbatim>\<open>isMuted\<close> constant of the render
  in which \<^verbatim>\<open>startSession\<close> was called: after a session is started unmuted and the user
  mutes, \<^verbatim>\<open>isMuted\<close> is true and a captured frame is still sent; after a session is started
  muted and the user unmutes, \<^verbatim>\<open>isMuted\<close> is false and a captured frame is not sent.
\<close>

theorem stale_mute_flag_sends_frame:
  "isMuted (run mute_after_start (mounted (Some ''key''))) \<and>
   sent (run mute_after_start (mounted (Some ''key''))) =
     [(0, RealtimeInput (encodeBase64 [1, 2, 3, 4]) ''audio/pcm;rate=16000'')] \<and>
   \<not> isMuted (run unmute_after_start (mounted (Some ''key''))) \<and>
   sent (run unmute_after_start (mounted (Some ''key''))) = []"
proof -
  have muted: "isMuted (run mute_after_start (mounted (Some ''key''))) \<and>
   sent (run mute_after_start (mounted (Some ''key''))) =
     [(0, RealtimeInput (encodeBase64 [1, 2, 3, 4]) ''audio/pcm;rate=16000'')]"
    by (simp add: mute_after_start_def run_simps)
  have unmuted: "\<not> isMuted (run unmute_after_start (mounted (Some ''key''))) \<and>
   sent (run unmute_after_start (mounted (Some ''key''))) = []"
    by (simp add: unmute_after_start_def run_simps)
  from muted unmuted show ?thesis by blast
qed

section \<open>The properties on the example runs\<close>

lemma chunk_of_audio_message:
  assumes "length data = 2 * n" "0 < n"
  shows "chunk_of (audio_message data) = Some \<lparr>pcm = data, frames = n, rate = 24000\<rparr>"
proof -
  from assms have "data \<noteq> []"
    by auto
  with assms show ?thesis
    by (simp add: chunk_of_def audio_message_def base64Audio_def audioPart_def decode_encode
        encodeBase64_not_Nil decodeAudioData_def)
qed

lemma listening_facts:
  "outputAudioContextRef listening = Some 1" "nextStartTimeRef listening = 0" "nodes listening = []"
  "sourcesRef listening = []" "saved listening = []" "sent listening = []"
  "contexts listening = [Running, Running]"
  by (simp_all add: listening_def one_session_def run_simps)

lemma onmessage_audio_message:
  assumes "length data = 2 * n" "0 < n" "outputAudioContextRef s = Some ctx"
  shows "onmessage session (audio_message data) now s =
    Normal (schedule ctx \<lparr>pcm = data, frames = n, rate = 24000\<rparr> now (context_resume ctx s))"
proof -
  have t: "transcriptions (audio_message data) s = s"
    by (simp add: transcriptions_def audio_message_def)
  have i: "\<not> interrupted (audio_message data)" "toolCall (audio_message data) = None"
    by (simp_all add: audio_message_def)
  from play_audio_chunk[OF chunk_of_audio_message[OF assms(1,2)] assms(3), of now] i show ?thesis
    by (simp add: onmessage_def tool_calls_def and_then_def interruption_def t)
qed

lemma step_Message_Normal:
  assumes "session < length (sessions s)" "connection (sessions s ! session) = Opened"
    "onmessage session m now s = Normal s'"
  shows "step (Message session m now) s = s'"
  using assms by (simp add: state_of_def)

lemma schedule_sessions: "sessions (schedule ctx b now (context_resume c s)) = sessions s"
  by (simp add: schedule_def Let_def context_resume_def)

lemma schedule_outputAudioContextRef:
  "outputAudioContextRef (schedule ctx b now (context_resume c s)) = outputAudioContextRef s"
  by (simp add: schedule_def Let_def context_resume_def)

theorem chunks_play_back_to_back_witness:
  "start_time (nodes (run [Message 0 (audio_message (replicate 24000 0)) 0,
                           Message 0 (audio_message (replicate 14400 0)) 0.1] listening) ! 0) = 0 \<and>
   start_time (nodes (run [Message 0 (audio_message (replicate 24000 0)) 0,
                           Message 0 (audio_message (replicate 14400 0)) 0.1] listening) ! 1) = 0.5 \<and>
   nextStartTimeRef (run [Message 0 (audio_message (replicate 24000 0)) 0,
                          Message 0 (audio_message (replicate 14400 0)) 0.1] listening) = 0.8"
proof -
  let ?m1 = "audio_message (replicate 24000 0)"
  let ?m2 = "audio_message (replicate 14400 0)"
  let ?b1 = "\<lparr>pcm = replicate 24000 (0 :: 8 word), frames = 12000, rate = 24000\<rparr>"
  let ?b2 = "\<lparr>pcm = replicate 14400 (0 :: 8 word), frames = 7200, rate = 24000\<rparr>"
  let ?s1 = "schedule 1 ?b1 0 (context_resume 1 listening)"
  let ?s2 = "schedule 1 ?b2 0.1 (context_resume 1 ?s1)"
  have c1: "chunk_of ?m1 = Some ?b1"
    by (rule chunk_of_audio_message) simp_all
  have c2: "chunk_of ?m2 = Some ?b2"
    by (rule chunk_of_audio_message) simp_all
  have o1: "onmessage 0 ?m1 0 listening = Normal ?s1"
    by (rule onmessage_audio_message) (simp_all add: listening_facts)
  have o2: "onmessage 0 ?m2 0.1 ?s1 = Normal ?s2"
    by (rule onmessage_audio_message) (simp_all add: schedule_outputAudioContextRef listening_facts)
  have op: "0 < length (sessions listening)" "connection (sessions listening ! 0) = Opened"
    by (simp_all add: listening_def one_session_def run_simps)
  have e1: "step (Message 0 ?m1 0) listening = ?s1"
    using op o1 by (rule step_Message_Normal)
  have e2: "step (Message 0 ?m2 0.1) ?s1 = ?s2"
    by (rule step_Message_Normal[OF _ _ o2]) (simp_all only: schedule_sessions op)
  have r: "run [Message 0 ?m1 0, Message 0 ?m2 0.1] listening = ?s2"
    by (simp only: run_def fold_simps e1 e2)
  have i: "\<not> interrupted ?m1" "\<not> interrupted ?m2"
    by (simp_all add: audio_message_def)
  have d: "duration ?b1 = 0.5" "duration ?b2 = 0.3"
    by (simp_all add: duration_def)
  from chunks_play_back_to_back[of listening 1 ?m1 ?b1 0 0 ?s1 ?m2 ?b2 "0.1" ?s2]
    c1 c2 o1 o2 i d listening_facts(1,2,3)
  show ?thesis
    unfolding r by simp
qed

theorem tool_calls_answered_in_order_witness:
  "saved (state_of (onmessage 0 two_saves 0 listening)) =
     [Some ''User's birthday is March 5'', Some ''Likes tea''] \<and>
   sent (state_of (onmessage 0 two_saves 0 listening)) =
     [(0, ToolResponse (Some ''abc'') (Some ''save_important_info'') acknowledgement),
      (0, ToolResponse (Some ''def'') (Some ''save_important_info'') acknowledgement)]"
proof -
  let ?fcs = "[\<lparr>fc_id = Some ''abc'', fc_name = Some ''save_important_info'',
          fc_args = Some (Some ''User's birthday is March 5'')\<rparr>,
         \<lparr>fc_id = Some ''x'', fc_name = Some ''other_tool'', fc_args = None\<rparr>,
         \<lparr>fc_id = Some ''def'', fc_name = Some ''save_important_info'',
          fc_args = Some (Some ''Likes tea'')\<rparr>]"
  have h: "toolCall two_saves = Some (Some ?fcs) \<and> (\<forall>fc\<in>set ?fcs. is_save fc \<longrightarrow> fc_args fc \<noteq> None) \<and>
      length (filter is_save ?fcs) = 2"
    by (simp add: two_saves_def is_save_def)
  from tool_calls_answered_in_order[of two_saves ?fcs 2 0 0 listening] h
  show ?thesis
    by (simp add: listening_facts is_save_def info_of_def tool_response_def)
qed

theorem interruption_clears_playback_witness:
  "length (sourcesRef (run [Message 0 (audio_message [1, 0, 2, 0]) 0,
                            Message 0 (audio_message [3, 0, 4, 0]) 0] listening)) = 2 \<and>
   sourcesRef (state_of (onmessage 0 interruption_message 0
      (run [Message 0 (audio_message [1, 0, 2, 0]) 0,
            Message 0 (audio_message [3, 0, 4, 0]) 0] listening))) = [] \<and>
   nextStartTimeRef (state_of (onmessage 0 interruption_message 0
      (run [Message 0 (audio_message [1, 0, 2, 0]) 0,
            Message 0 (audio_message [3, 0, 4, 0]) 0] listening))) = 0 \<and>
   stopped (nodes (state_of (onmessage 0 interruption_message 0
      (run [Message 0 (audio_message [1, 0, 2, 0]) 0,
            Message 0 (audio_message [3, 0, 4, 0]) 0] listening))) ! 0) \<and>
   stopped (nodes (state_of (onmessage 0 interruption_message 0
      (run [Message 0 (audio_message [1, 0, 2, 0]) 0,
            Message 0 (audio_message [3, 0, 4, 0]) 0] listening))) ! 1)"
proof -
  let ?m1 = "audio_message [1, 0, 2, 0]"
  let ?m2 = "audio_message [3, 0, 4, 0]"
  let ?b1 = "\<lparr>pcm = [1, 0, 2, 0 :: 8 word], frames = 2, rate = 24000\<rparr>"
  let ?b2 = "\<lparr>pcm = [3, 0, 4, 0 :: 8 word], frames = 2, rate = 24000\<rparr>"
  let ?s1 = "schedule 1 ?b1 0 (context_resume 1 listening)"
  let ?s2 = "schedule 1 ?b2 0 (context_resume 1 ?s1)"
  have o1: "onmessage 0 ?m1 0 listening = Normal ?s1"
    by (rule onmessage_audio_message) (simp_all add: listening_facts)
  have o2: "onmessage 0 ?m2 0 ?s1 = Normal ?s2"
    by (rule onmessage_audio_message) (simp_all add: schedule_outputAudioContextRef listening_facts)
  have op: "0 < length (sessions listening)" "connection (sessions listening ! 0) = Opened"
    by (simp_all add: listening_def one_session_def run_simps)
  have e1: "step (Message 0 ?m1 0) listening = ?s1"
    using op o1 by (rule step_Message_Normal)
  have e2: "step (Message 0 ?m2 0) ?s1 = ?s2"
    by (rule step_Message_Normal[OF _ _ o2]) (simp_all only: schedule_sessions op)
  have r: "run [Message 0 ?m1 0, Message 0 ?m2 0] listening = ?s2"
    by (simp only: run_def fold_simps e1 e2)
  have f: "sourcesRef ?s2 = [0, 1]" "length (nodes ?s2) = 2" "source_stop_throws ?s2 = (\<lambda>k. False)"
    by (simp_all add: schedule_def Let_def context_resume_def listening_facts listening_def
        one_session_def run_simps)
  have p: "interrupted interruption_message \<and> toolCall interruption_message = None \<and>
      parts interruption_message = None"
    by (simp add: interruption_message_def)
  from interruption_clears_playback[of interruption_message 0 0 ?s2] p obtain s' where
    s': "onmessage 0 interruption_message 0 ?s2 = Normal s'"
    by blast
  from interruption_clears_playback[of interruption_message 0 0 ?s2 s'] p s' f
  have c: "sourcesRef s' = [] \<and> nextStartTimeRef s' = 0 \<and> stopped (nodes s' ! 0) \<and> stopped (nodes s' ! 1)"
    by simp
  have fin: "state_of (onmessage 0 interruption_message 0 ?s2) = s'"
    by (simp only: s' state_of_def completion.case)
  have "length (sourcesRef ?s2) = 2"
    by (simp only: f(1)) simp
  with c show ?thesis
    unfolding r fin by blast
qed

theorem only_first_audio_part_plays_witness:
  "onmessage 0 two_audio_parts 0 listening =
     onmessage 0 (two_audio_parts\<lparr>parts := Some [\<lparr>inlineData = Some (Some (encodeBase64 [1, 0, 2, 0]))\<rparr>]\<rparr>)
       0 listening \<and>
   length (nodes (state_of (onmessage 0 two_audio_parts 0 listening))) = 1 \<and>
   pcm (node_buffer (nodes (state_of (onmessage 0 two_audio_parts 0 listening)) ! 0)) = [1, 0, 2, 0]"
proof -
  let ?p = "\<lparr>inlineData = Some (Some (encodeBase64 [1, 0, 2, 0]))\<rparr>"
  have h: "parts two_audio_parts =
      Some ([\<lparr>inlineData = None\<rparr>] @ ?p # [\<lparr>inlineData = Some (Some (encodeBase64 [3, 0, 4, 0]))\<rparr>]) \<and>
      (\<forall>q\<in>set [\<lparr>inlineData = None\<rparr>]. inlineData q = None) \<and> inlineData ?p \<noteq> None"
    by (simp add: two_audio_parts_def)
  have e: "encodeBase64 [1, 0, 2, 0] \<noteq> []"
    by (rule encodeBase64_not_Nil) simp
  have n: "length (nodes (state_of (onmessage 0 two_audio_parts 0 listening))) = 1 \<and>
   pcm (node_buffer (nodes (state_of (onmessage 0 two_audio_parts 0 listening)) ! 0)) = [1, 0, 2, 0]"
    by (simp add: two_audio_parts_def message_simps and_then_def state_of_def listening_facts
        decode_encode e context_resume_def Let_def)
  from only_first_audio_part_plays[of two_audio_parts "[\<lparr>inlineData = None\<rparr>]" ?p
      "[\<lparr>inlineData = Some (Some (encodeBase64 [3, 0, 4, 0]))\<rparr>]" 0 0 listening] h n
  show ?thesis by blast
qed


end
